theory Spec2Isabelle
  imports Main "HOL-Library.AList" "HOL-Library.Multiset"
begin

section \<open>bin/generate-readme.js\<close>

text \<open>
  The script discovers repositories (\<open>getRepos\<close>), fetches one metadata file per
  repository (\<open>collectRepoMetadata\<close>) and writes \<open>libraries.json\<close> and \<open>README.md\<close>
  (\<open>generateReadme\<close>). Everything outside the script (the network, the file system, the
  npm libraries, the collation of the runtime) is a field of the record \<open>world\<close> below.
\<close>

subsection \<open>Strings\<close>

text \<open>
  A JavaScript string is a sequence of UTF-16 code units. The model is \<open>string\<close>, whose
  characters are the code units from 0 to 255 (the Latin-1 range); \<open>toLowerCase\<close>,
  \<open>trim\<close> and the regular expression atom \<open>.\<close> are defined on that range as ECMAScript
  defines them there. The range is closed under \<open>toLowerCase\<close>.
\<close>

definition code_unit :: "char \<Rightarrow> nat" where
  "code_unit c = of_char c"

definition lower_char :: "char \<Rightarrow> char" where
  "lower_char c =
     (let n = code_unit c
      in if (65 \<le> n \<and> n \<le> 90) \<or> (192 \<le> n \<and> n \<le> 222 \<and> n \<noteq> 215)
         then char_of (n + 32) else c)"

definition toLowerCase :: "string \<Rightarrow> string" where
  "toLowerCase s = map lower_char s"

text \<open>
  \<open>trim\<close> removes WhiteSpace and LineTerminator code points from both ends: TAB, LF, VT,
  FF, CR, SP and NBSP are the ones below 256.
\<close>

definition is_white_space :: "char \<Rightarrow> bool" where
  "is_white_space c = (code_unit c \<in> {9, 10, 11, 12, 13, 32, 160})"

definition trim :: "string \<Rightarrow> string" where
  "trim s = rev (dropWhile is_white_space (rev (dropWhile is_white_space s)))"

definition startsWith :: "string \<Rightarrow> string \<Rightarrow> bool" where
  "startsWith s p = (take (length p) s = p)"

text \<open>The atom \<open>.\<close> (without the \<open>s\<close> flag) matches every code unit but LF and CR.\<close>

definition is_line_terminator :: "char \<Rightarrow> bool" where
  "is_line_terminator c = (code_unit c = 10 \<or> code_unit c = 13)"

subsection \<open>The three regular expression replacements of \<open>generateReadme\<close>\<close>

text \<open>
  All three are \<open>String.prototype.replace\<close> with a regular expression without the
  \<open>g\<close> flag: the leftmost match only is replaced, and none of the replacement texts
  contains \<open>$\<close>.

  \<^verbatim>\<open>name_pretty.replace(/^(Google )?Cloud /, '')\<close>: the pattern is anchored at index 0.
  The optional group is greedy, so \<open>Google Cloud \<close> is tried first and \<open>Cloud \<close> second.
\<close>

definition normalize_name :: "string \<Rightarrow> string" where
  "normalize_name s =
     (if startsWith s ''Google Cloud '' then drop (length ''Google Cloud '') s
      else if startsWith s ''Cloud '' then drop (length ''Cloud '') s
      else s)"

text \<open>
  \<^verbatim>\<open>.replace(/\/*$/, '/')\<close>: at a start index the pattern matches iff everything from
  there to the end of the input is \<open>/\<close>. Start indices are tried from the left, and the
  empty match at the end of the input always succeeds.
\<close>

fun guarantee_trailing_slash :: "string \<Rightarrow> string" where
  "guarantee_trailing_slash [] = ''/''"
| "guarantee_trailing_slash (c # cs) =
     (if list_all (\<lambda>x. x = CHR ''/'') (c # cs) then ''/''
      else c # guarantee_trailing_slash cs)"

text \<open>
  \<^verbatim>\<open>.replace(/(docs\/(.+)*)*$/, 'docs/getting-support')\<close>: the outer group repeats zero
  or more times and must reach the end of the input. Zero repetitions match the empty
  rest only. One repetition is \<open>docs/\<close> followed by any number of \<open>.\<close> atoms, and further
  repetitions add nothing, since \<open>docs/\<close> itself consists of \<open>.\<close> atoms. So at a start
  index the pattern matches iff the rest is empty, or is \<open>docs/\<close> followed by code units
  none of which is a line terminator.
\<close>

definition docs_tail_matches :: "string \<Rightarrow> bool" where
  "docs_tail_matches t =
     (t = [] \<or> (startsWith t ''docs/'' \<and>
                list_all (\<lambda>x. \<not> is_line_terminator x) (drop (length ''docs/'') t)))"

fun replace_docs_tail :: "string \<Rightarrow> string" where
  "replace_docs_tail [] = ''docs/getting-support''"
| "replace_docs_tail (c # cs) =
     (if docs_tail_matches (c # cs) then ''docs/getting-support''
      else c # replace_docs_tail cs)"

definition derive_supportDocsUrl :: "string \<Rightarrow> string" where
  "derive_supportDocsUrl product_documentation =
     replace_docs_tail (guarantee_trailing_slash product_documentation)"

definition stackdriver_support :: string where
  "stackdriver_support = ''https://cloud.google.com/stackdriver/docs/getting-support''"

definition is_stackdriver :: "string \<Rightarrow> bool" where
  "is_stackdriver name = startsWith (trim (toLowerCase name)) ''stackdriver''"

subsection \<open>A reference semantics for the three patterns\<close>

text \<open>
  Regular expressions over code units, as far as the three patterns need them, and the
  strings a pattern matches. \<open>matches r t\<close> does not depend on greediness or on the order
  in which alternatives are tried; these decide which match is found first, and for the
  three patterns there is no choice: anchored at the start, \<open>name_pattern\<close> has at most
  one match, and a match of the other two has to end where the input ends, so that only
  its start (the leftmost possible) is open.
\<close>

datatype rexp =
    Atom "char \<Rightarrow> bool"
  | Eps
  | Seq rexp rexp
  | Opt rexp
  | Star rexp

inductive matches :: "rexp \<Rightarrow> string \<Rightarrow> bool" where
  Atom: "P c \<Longrightarrow> matches (Atom P) [c]"
| Eps: "matches Eps []"
| Seq: "matches r a \<Longrightarrow> matches s b \<Longrightarrow> matches (Seq r s) (a @ b)"
| Opt_absent: "matches (Opt r) []"
| Opt_present: "matches r a \<Longrightarrow> matches (Opt r) a"
| Star_stop: "matches (Star r) []"
| Star_again: "matches r a \<Longrightarrow> matches (Star r) b \<Longrightarrow> matches (Star r) (a @ b)"

code_pred matches .

fun literal :: "string \<Rightarrow> rexp" where
  "literal [] = Eps"
| "literal (c # cs) = Seq (Atom (\<lambda>x. x = c)) (literal cs)"

declare literal.simps [simp del]

definition any_char :: rexp where
  "any_char = Atom (\<lambda>x. \<not> is_line_terminator x)"

definition one_or_more :: "rexp \<Rightarrow> rexp" where
  "one_or_more r = Seq r (Star r)"

text \<open>
  \<^verbatim>\<open>/^(Google )?Cloud /\<close> after \<open>^\<close>, \<^verbatim>\<open>/\/*$/\<close> and \<^verbatim>\<open>/(docs\/(.+)*)*$/\<close> before \<open>$\<close>.
\<close>

definition name_pattern :: rexp where
  "name_pattern = Seq (Opt (literal ''Google '')) (literal ''Cloud '')"

definition slashes_pattern :: rexp where
  "slashes_pattern = Star (Atom (\<lambda>x. x = CHR ''/''))"

definition docs_pattern :: rexp where
  "docs_pattern = Star (Seq (literal ''docs/'') (Star (one_or_more any_char)))"

subsection \<open>JSON values and property reads\<close>

text \<open>
  What \<open>JSON.parse\<close> returns. A number is held as the text that
  \<open>Number.prototype.toString\<close> gives for it (\<open>0\<close> for both zeros; \<open>JSON.parse\<close> never
  yields NaN): the script only tests numbers for truthiness and prints them. An object
  is the list of its properties in insertion order, with distinct keys when it comes
  from \<open>JSON.parse\<close>; assigning to a property is
  \<open>AList.update\<close> (in place when the key exists, appended otherwise) and reading one is
  \<open>map_of\<close>, with \<open>None\<close> for \<open>undefined\<close>.
\<close>

datatype json =
    JNull
  | JBool bool
  | JNum string
  | JStr string
  | JArr "json list"
  | JObj "(string \<times> json) list"

fun truthy :: "json option \<Rightarrow> bool" where
  "truthy None = False"
| "truthy (Some JNull) = False"
| "truthy (Some (JBool b)) = b"
| "truthy (Some (JNum n)) = (n \<noteq> ''0'')"
| "truthy (Some (JStr s)) = (s \<noteq> [])"
| "truthy (Some (JArr xs)) = True"
| "truthy (Some (JObj fs)) = True"

text \<open>
  The exceptions: a \<open>TypeError\<close>, the \<open>SyntaxError\<close> of \<open>JSON.parse\<close>, the error of
  gaxios with the status of \<open>err.response\<close> (\<open>None\<close> when the error has no response), the
  error of \<open>readFileSync\<close>, and \<open>new Error(message)\<close>.
\<close>

datatype error =
    TypeError
  | SyntaxError
  | GaxiosError "nat option"
  | ENOENT
  | Error string

text \<open>
  \<open>v.k\<close> for the property names the script reads (\<open>api_id\<close>, \<open>name_pretty\<close>,
  \<open>product_documentation\<close>, ...): none of them is a property of a prototype, so only an
  object can have one, and reading any property of \<open>null\<close> throws.
\<close>

fun get_prop :: "json \<Rightarrow> string \<Rightarrow> error + json option" where
  "get_prop JNull k = Inl TypeError"
| "get_prop (JObj fs) k = Inr (map_of fs k)"
| "get_prop v k = Inr None"

subsection \<open>The world outside the script\<close>

text \<open>
  A request either gets no response (network failure, invalid URL) or a response with
  a status. \<open>res.headers['link']\<close>, \<open>res.data.items\<close> (as the \<open>full_name\<close> of each item)
  and \<open>res.data.content\<close> are what the script reads of a response.
\<close>

record response =
  status :: nat
  headers_link :: "string option"
  data_items :: "string list option"
  data_content :: "string option"

datatype outcome = NoResponse | Responded response

record world =
  GITHUB_TOKEN :: "string option"
  github_get :: "string \<Rightarrow> outcome"
  http_head :: "string \<Rightarrow> outcome"
  parseLinkHeader :: "string \<Rightarrow> (string \<times> string) list option"
  URL_href :: "string \<Rightarrow> string option"
  parse_content :: "string \<Rightarrow> json option"
  localeCompare :: "string \<Rightarrow> string \<Rightarrow> int"
  template :: "string option"
  tick :: string
  cross :: string

text \<open>
  \<^item> \<open>GITHUB_TOKEN\<close>: \<open>process.env.GITHUB_TOKEN\<close>, \<open>None\<close> when it is not set;
  \<^item> \<open>github_get url\<close>: what the authenticated client gets for a GET of \<open>url\<close>;
  \<^item> \<open>http_head url\<close>: what a HEAD of \<open>url\<close> gets;
  \<^item> \<open>parseLinkHeader h\<close>: the npm module of that name, as the list of
    (relation, \<open>url\<close> of that relation), \<open>None\<close> for \<open>null\<close>;
  \<^item> \<open>URL_href u\<close>: \<open>new URL(u).href\<close>, \<open>None\<close> when the constructor throws;
  \<^item> \<open>parse_content c\<close>:
    \<^verbatim>\<open>JSON.parse(Buffer.from(c, 'base64').toString('utf8'))\<close>, \<open>None\<close> when it throws;
  \<^item> \<open>localeCompare a b\<close>: \<open>a.localeCompare(b)\<close>;
  \<^item> \<open>template\<close>: the content of \<open>./bin/README.mustache\<close>, \<open>None\<close> when it cannot be read;
  \<^item> \<open>tick\<close>, \<open>cross\<close>: \<open>figures.tick\<close> and \<open>figures.cross\<close>.
\<close>

text \<open>
  gaxios throws when there is no response, and when \<open>validateStatus\<close> rejects the
  status of the response; the error then carries the response.
\<close>

definition gaxios_request :: "(nat \<Rightarrow> bool) \<Rightarrow> outcome \<Rightarrow> error + response" where
  "gaxios_request validateStatus out =
     (case out of
        NoResponse \<Rightarrow> Inl (GaxiosError None)
      | Responded res \<Rightarrow>
          if validateStatus (status res) then Inr res
          else Inl (GaxiosError (Some (status res))))"

definition default_validateStatus :: "nat \<Rightarrow> bool" where
  "default_validateStatus st = (200 \<le> st \<and> st < 300)"

definition github_request :: "world \<Rightarrow> string \<Rightarrow> error + response" where
  "github_request w url = gaxios_request default_validateStatus (github_get w url)"

text \<open>\<^verbatim>\<open>request({url, method: 'HEAD', validateStatus: () => true})\<close>\<close>

definition head_request :: "world \<Rightarrow> string \<Rightarrow> error + response" where
  "head_request w url = gaxios_request (\<lambda>st. True) (http_head w url)"

subsection \<open>\<open>generateReadme\<close>: the body of the loop\<close>

text \<open>
  One iteration of the \<open>for ... in\<close> loop on the value \<open>metadata\<close>. The result is an
  error (the exception leaves \<open>generateReadme\<close>), or the object pushed on \<open>libraries\<close>
  (\<open>None\<close> after \<open>continue\<close>) with the URLs probed by HEAD, in order.
\<close>

definition process_metadata :: "world \<Rightarrow> json \<Rightarrow> error + (json option \<times> string list)" where
  "process_metadata w metadata =
     (case get_prop metadata ''api_id'' of
        Inl e \<Rightarrow> Inl e
      | Inr api_id \<Rightarrow>
          if \<not> truthy api_id then Inr (None, [])
          else (case metadata of
             JObj props \<Rightarrow>
               (case map_of props ''name_pretty'' of
                  Some (JStr name) \<Rightarrow>
                    let props1 = AList.update ''name_pretty'' (JStr (normalize_name name)) props
                    in (case map_of props1 ''product_documentation'' of
                          Some (JStr product_documentation) \<Rightarrow>
                            if product_documentation = [] then Inr (Some (JObj props1), [])
                            else
                              let candidate = derive_supportDocsUrl product_documentation;
                                  supportDocsUrl =
                                    (if is_stackdriver (normalize_name name)
                                     then stackdriver_support else candidate)
                              in (case head_request w supportDocsUrl of
                                    Inl e \<Rightarrow> Inl e
                                  | Inr res \<Rightarrow>
                                      let remoteUrlExists = (status res \<noteq> 404);
                                          supportDocsUrl' =
                                            (if \<not> remoteUrlExists then product_documentation
                                             else supportDocsUrl)
                                      in Inr (Some (JObj (AList.update ''support_documentation''
                                                (JStr supportDocsUrl') props1)),
                                              [supportDocsUrl]))
                        | pd \<Rightarrow>
                            if \<not> truthy pd then Inr (Some (JObj props1), [])
                            else Inl TypeError)
                | _ \<Rightarrow> Inl TypeError)
           | _ \<Rightarrow> Inr (None, [])))"

subsection \<open>\<open>generateReadme\<close>: the loop, the sort and the two files\<close>

text \<open>
  \<open>for (const repoMetadataKey in repoMetadata)\<close> visits the properties in insertion
  order (repository names contain \<open>/\<close>, so none is an array index). The first exception
  ends the loop and the function.
\<close>

fun process_all ::
  "world \<Rightarrow> (string \<times> json) list \<Rightarrow> json list \<Rightarrow> string list
     \<Rightarrow> error + (json list \<times> string list)" where
  "process_all w [] libraries probes = Inr (libraries, probes)"
| "process_all w ((repoMetadataKey, metadata) # rest) libraries probes =
     (case process_metadata w metadata of
        Inl e \<Rightarrow> Inl e
      | Inr (None, ps) \<Rightarrow> process_all w rest libraries (probes @ ps)
      | Inr (Some lib, ps) \<Rightarrow> process_all w rest (libraries @ [lib]) (probes @ ps))"

text \<open>
  \<open>Array.prototype.sort\<close> is stable, and with a consistent comparator every stable sort
  gives the same array; the model is insertion sort. (With a comparator that is not
  consistent the order is implementation-defined, and still a permutation.) Each element
  of \<open>libraries\<close> is an object (\<open>property\<close> reads a property of it) and has a string as
  \<open>name_pretty\<close> (the loop assigned it), which \<open>name_pretty_of\<close> reads.
\<close>

fun insert_by :: "('a \<Rightarrow> 'a \<Rightarrow> int) \<Rightarrow> 'a \<Rightarrow> 'a list \<Rightarrow> 'a list" where
  "insert_by cmp x [] = [x]"
| "insert_by cmp x (y # ys) =
     (if cmp x y \<le> 0 then x # y # ys else y # insert_by cmp x ys)"

definition array_sort :: "('a \<Rightarrow> 'a \<Rightarrow> int) \<Rightarrow> 'a list \<Rightarrow> 'a list" where
  "array_sort cmp xs = foldr (insert_by cmp) xs []"

definition property :: "json \<Rightarrow> string \<Rightarrow> json option" where
  "property lib k = (case lib of JObj props \<Rightarrow> map_of props k | _ \<Rightarrow> None)"

definition name_pretty_of :: "json \<Rightarrow> string" where
  "name_pretty_of lib = (case property lib ''name_pretty'' of Some (JStr s) \<Rightarrow> s | _ \<Rightarrow> [])"

definition compare_libs :: "world \<Rightarrow> json \<Rightarrow> json \<Rightarrow> int" where
  "compare_libs w a b = localeCompare w (name_pretty_of a) (name_pretty_of b)"

text \<open>
  \<open>${v}\<close> in a template literal is ToString of \<open>v\<close>. An array is joined with commas,
  \<open>null\<close> elements giving the empty string. An object gives \<open>[object Object]\<close> through
  \<open>Object.prototype.toString\<close>, unless it has a property \<open>toString\<close> of its own: a JSON
  value is not callable, \<open>valueOf\<close> does not return a primitive either, and ToPrimitive
  throws.
\<close>

fun join_comma :: "string list \<Rightarrow> string" where
  "join_comma [] = []"
| "join_comma [x] = x"
| "join_comma (x # y # zs) = x @ '','' @ join_comma (y # zs)"

fun js_toString :: "json \<Rightarrow> error + string"
  and elements_toString :: "json list \<Rightarrow> error + string list" where
  "js_toString JNull = Inr ''null''"
| "js_toString (JBool b) = Inr (if b then ''true'' else ''false'')"
| "js_toString (JNum n) = Inr n"
| "js_toString (JStr s) = Inr s"
| "js_toString (JArr xs) =
     (case elements_toString xs of Inl e \<Rightarrow> Inl e | Inr ss \<Rightarrow> Inr (join_comma ss))"
| "js_toString (JObj props) =
     (if map_of props ''toString'' \<noteq> None then Inl TypeError else Inr ''[object Object]'')"
| "elements_toString [] = Inr []"
| "elements_toString (x # xs) =
     (case (if x = JNull then Inr [] else js_toString x) of
        Inl e \<Rightarrow> Inl e
      | Inr s \<Rightarrow> (case elements_toString xs of Inl e \<Rightarrow> Inl e | Inr ss \<Rightarrow> Inr (s # ss)))"

definition interpolate :: "json \<Rightarrow> string \<Rightarrow> error + string" where
  "interpolate lib k =
     (case property lib k of Some v \<Rightarrow> js_toString v | None \<Rightarrow> Inr ''undefined'')"

definition bind :: "error + 'a \<Rightarrow> ('a \<Rightarrow> error + 'b) \<Rightarrow> error + 'b" where
  "bind m f = (case m of Inl e \<Rightarrow> Inl e | Inr x \<Rightarrow> f x)"

text \<open>The template literal of line 120: one row of the table, ended by a line feed.\<close>

definition render_row :: "world \<Rightarrow> json \<Rightarrow> error + string" where
  "render_row w lib =
     bind (interpolate lib ''name_pretty'') (\<lambda>name_pretty.
     bind (interpolate lib ''repo'') (\<lambda>repo.
     bind (interpolate lib ''client_documentation'') (\<lambda>client_documentation.
     bind (interpolate lib ''distribution_name'') (\<lambda>distribution_name.
     bind (interpolate lib ''api_id'') (\<lambda>api_id.
       Inr (''| ['' @ name_pretty @ ''](https://github.com/'' @ repo
            @ '') | [:notebook:]('' @ client_documentation
            @ '') | '' @ [CHR 0x60] @ ''npm i '' @ distribution_name @ [CHR 0x60]
            @ '' | [enable](https://console.cloud.google.com/flows/enableapi?apiid=''
            @ api_id @ '') | ''
            @ (if truthy (property lib ''requires_billing'') then cross w else tick w)
            @ '' |'' @ [CHR 0x0A]))))))"

text \<open>\<open>libraries.forEach\<close>: the rows are appended to \<open>partial\<close> until one throws.\<close>

fun render_rows :: "world \<Rightarrow> json list \<Rightarrow> string \<Rightarrow> error + string" where
  "render_rows w [] partial = Inr partial"
| "render_rows w (lib # libs) partial =
     (case render_row w lib of
        Inl e \<Rightarrow> Inl e
      | Inr row \<Rightarrow> render_rows w libs (partial @ row))"

text \<open>
  \<open>template.replace('{{libraries}}', partial)\<close>: a string pattern replaces its first
  occurrence, and \<open>$$\<close>, \<open>$&\<close>, \<open>$`\<close> and \<open>$'\<close> in the replacement text are expanded
  (a string pattern has no captures, so \<open>$1\<close> ... stay as they are).
\<close>

fun split_at_first :: "string \<Rightarrow> string \<Rightarrow> (string \<times> string) option" where
  "split_at_first pat [] = (if pat = [] then Some ([], []) else None)"
| "split_at_first pat (c # cs) =
     (if startsWith (c # cs) pat then Some ([], drop (length pat) (c # cs))
      else map_option (\<lambda>(preceding, following). (c # preceding, following)) (split_at_first pat cs))"

fun get_substitution :: "string \<Rightarrow> string \<Rightarrow> string \<Rightarrow> string \<Rightarrow> string" where
  "get_substitution matched preceding following (c # d # r) =
     (if c = CHR ''$'' \<and> d = CHR ''$'' then CHR ''$'' # get_substitution matched preceding following r
      else if c = CHR ''$'' \<and> d = CHR ''&'' then matched @ get_substitution matched preceding following r
      else if c = CHR ''$'' \<and> d = CHR 0x60 then preceding @ get_substitution matched preceding following r
      else if c = CHR ''$'' \<and> d = CHR 0x27 then following @ get_substitution matched preceding following r
      else c # get_substitution matched preceding following (d # r))"
| "get_substitution matched preceding following r = r"

definition string_replace :: "string \<Rightarrow> string \<Rightarrow> string \<Rightarrow> string" where
  "string_replace s pat replacement =
     (case split_at_first pat s of
        None \<Rightarrow> s
      | Some (preceding, following) \<Rightarrow>
          preceding @ get_substitution pat preceding following replacement @ following)"

text \<open>
  The two files the script writes: \<open>libraries_json\<close> holds the array that
  \<open>JSON.stringify(libraries, null, 2)\<close> serialises, \<open>README_md\<close> the text; \<open>None\<close> is a
  file not written (writing itself is taken to succeed). \<open>generateReadme\<close> returns the
  files, and the URLs probed or the exception that left it. \<open>libraries.json\<close> is written
  before the rows are rendered.
\<close>

record files =
  libraries_json :: "json list option"
  README_md :: "string option"

definition generateReadme ::
  "world \<Rightarrow> files \<Rightarrow> (string \<times> json) list \<Rightarrow> files \<times> (error + string list)" where
  "generateReadme w fs repoMetadata =
     (case template w of
        None \<Rightarrow> (fs, Inl ENOENT)
      | Some tpl \<Rightarrow>
          (case process_all w repoMetadata [] [] of
             Inl e \<Rightarrow> (fs, Inl e)
           | Inr (libraries, probes) \<Rightarrow>
               let sorted = array_sort (compare_libs w) libraries;
                   fs1 = fs\<lparr>libraries_json := Some sorted\<rparr>
               in (case render_rows w sorted [] of
                     Inl e \<Rightarrow> (fs1, Inl e)
                   | Inr partial \<Rightarrow>
                       (fs1\<lparr>README_md := Some (string_replace tpl ''{{libraries}}'' partial)\<rparr>,
                        Inr probes))))"

subsection \<open>\<open>collectRepoMetadata\<close>\<close>

text \<open>
  The console is the list of the calls \<open>checkpoint(message, success)\<close>, as pairs
  (\<open>success\<close>, \<open>message\<close>). \<open>fetch_metadata\<close> is the \<open>try\<close> block up to the assignment.
\<close>

type_synonym console = "(bool \<times> string) list"

definition contents_url :: "string \<Rightarrow> string" where
  "contents_url repo =
     ''https://api.github.com'' @ ''/repos/'' @ repo @ ''/contents/.repo-metadata.json''"

definition fetch_metadata :: "world \<Rightarrow> string \<Rightarrow> error + json" where
  "fetch_metadata w repo =
     (case github_request w (contents_url repo) of
        Inl e \<Rightarrow> Inl e
      | Inr res \<Rightarrow>
          (case data_content res of
             None \<Rightarrow> Inl TypeError
           | Some c \<Rightarrow>
               (case parse_content w c of
                  None \<Rightarrow> Inl SyntaxError
                | Some v \<Rightarrow> Inr v)))"

text \<open>\<open>!err.response || err.response.status !== 404\<close>\<close>

fun rethrown :: "error \<Rightarrow> bool" where
  "rethrown (GaxiosError (Some st)) = (st \<noteq> 404)"
| "rethrown e = True"

fun collect_loop ::
  "world \<Rightarrow> string list \<Rightarrow> (string \<times> json) list \<Rightarrow> console
     \<Rightarrow> console \<times> (error + (string \<times> json) list)" where
  "collect_loop w [] repoMetadata con = (con, Inr repoMetadata)"
| "collect_loop w (repo # repos) repoMetadata con =
     (case fetch_metadata w repo of
        Inr v \<Rightarrow>
          collect_loop w repos (AList.update repo v repoMetadata)
            (con @ [(True, repo @ '' found .repo-metadata.json'')])
      | Inl err \<Rightarrow>
          if rethrown err then (con, Inl err)
          else collect_loop w repos repoMetadata
                 (con @ [(False, repo @ '' had no .repo-metadata.json'')]))"

definition collectRepoMetadata ::
  "world \<Rightarrow> string list \<Rightarrow> console \<Rightarrow> console \<times> (error + (string \<times> json) list)" where
  "collectRepoMetadata w repos con = collect_loop w repos [] con"

subsection \<open>\<open>getRepos\<close>\<close>

text \<open>
  The \<open>href\<close> of \<open>new URL('/search/repositories', baseUrl)\<close> once \<open>q\<close> and \<open>per_page\<close>
  are set.
\<close>

definition search_url :: string where
  "search_url =
     ''https://api.github.com/search/repositories?q=nodejs+in%3A.repo-metadata.json''
     @ ''+org%3Agoogleapis+is%3Apublic+archived%3Afalse&per_page=100''"

text \<open>The value of \<open>url\<close> after the body of the \<open>while\<close> loop: \<open>None\<close> for \<open>null\<close>.\<close>

definition next_page :: "world \<Rightarrow> response \<Rightarrow> error + string option" where
  "next_page w res =
     (case headers_link res of
        None \<Rightarrow> Inr None
      | Some h \<Rightarrow>
          if h = [] then Inr None
          else (case parseLinkHeader w h of
                  None \<Rightarrow> Inl TypeError
                | Some link \<Rightarrow>
                    (case map_of link ''next'' of
                       None \<Rightarrow> Inr None
                     | Some u \<Rightarrow>
                         (case URL_href w u of
                            None \<Rightarrow> Inl TypeError
                          | Some href \<Rightarrow> Inr (Some href)))))"

text \<open>
  The loop runs as long as the server names a next page, possibly forever: \<open>None\<close> is
  the loop that never ends. The second list is the URLs requested so far, in order.
\<close>

partial_function (option) getRepos_loop ::
  "world \<Rightarrow> string \<Rightarrow> string list \<Rightarrow> string list
     \<Rightarrow> (error + (string list \<times> string list)) option" where
  "getRepos_loop w url repos requested =
     (case github_request w url of
        Inl e \<Rightarrow> Some (Inl e)
      | Inr res \<Rightarrow>
          (case data_items res of
             None \<Rightarrow> Some (Inl TypeError)
           | Some items \<Rightarrow>
               (case next_page w res of
                  Inl e \<Rightarrow> Some (Inl e)
                | Inr None \<Rightarrow> Some (Inr (repos @ items, requested @ [url]))
                | Inr (Some url') \<Rightarrow>
                    getRepos_loop w url' (repos @ items) (requested @ [url]))))"

declare getRepos_loop.simps [code]

definition getRepos :: "world \<Rightarrow> (error + (string list \<times> string list)) option" where
  "getRepos w = getRepos_loop w search_url [] []"

subsection \<open>\<open>main\<close>\<close>

fun decimal :: "nat \<Rightarrow> string" where
  "decimal n =
     (if n < 10 then [char_of (48 + n)]
      else decimal (n div 10) @ [char_of (48 + n mod 10)])"

text \<open>
  The files and the console after the run, and the exception \<open>main\<close> ended with
  (\<open>Inr ()\<close> when there was none); \<open>None\<close> when discovery never ends.
\<close>

definition main :: "world \<Rightarrow> files \<Rightarrow> (files \<times> console \<times> (error + unit)) option" where
  "main w fs =
     (case getRepos w of
        None \<Rightarrow> None
      | Some (Inl e) \<Rightarrow> Some (fs, [], Inl e)
      | Some (Inr (repos, requested)) \<Rightarrow>
          let con = [(True, ''Discovered '' @ decimal (length repos)
                              @ '' node.js repos with metadata'')]
          in (case collectRepoMetadata w repos con of
                (con', Inl e) \<Rightarrow> Some (fs, con', Inl e)
              | (con', Inr repoMetadata) \<Rightarrow>
                  (case generateReadme w fs repoMetadata of
                     (fs', Inl e) \<Rightarrow> Some (fs', con', Inl e)
                   | (fs', Inr probes) \<Rightarrow> Some (fs', con', Inr ()))))"

text \<open>The module: without a token it throws before \<open>main\<close> is called.\<close>

definition script :: "world \<Rightarrow> files \<Rightarrow> (files \<times> console \<times> (error + unit)) option" where
  "script w fs =
     (case GITHUB_TOKEN w of
        None \<Rightarrow> Some (fs, [], Inl (Error ''Please include a GITHUB_TOKEN env var.''))
      | Some token \<Rightarrow>
          if token = [] then Some (fs, [], Inl (Error ''Please include a GITHUB_TOKEN env var.''))
          else main w fs)"

subsection \<open>Notions used to state the properties\<close>

text \<open>The input without its trailing run of \<open>/\<close>.\<close>

definition strip_slashes :: "string \<Rightarrow> string" where
  "strip_slashes s = rev (dropWhile (\<lambda>c. c = CHR ''/'') (rev s))"

text \<open>
  Pages served in a row: \<open>chain w [(u1, r1), ..., (un, rn)]\<close> holds when the request of
  each \<open>ui\<close> succeeds with the response \<open>ri\<close>, whose \<open>data.items\<close> is an array, each
  response but the last names \<open>u(i+1)\<close> as its next page, and the last names none.
\<close>

definition items_of :: "response \<Rightarrow> string list" where
  "items_of res = (case data_items res of Some xs \<Rightarrow> xs | None \<Rightarrow> [])"

definition page :: "world \<Rightarrow> string \<Rightarrow> response \<Rightarrow> bool" where
  "page w url res = (github_request w url = Inr res \<and> data_items res \<noteq> None)"

fun chain :: "world \<Rightarrow> (string \<times> response) list \<Rightarrow> bool" where
  "chain w [] = False"
| "chain w [(url, res)] = (page w url res \<and> next_page w res = Inr None)"
| "chain w ((url, res) # (url', res') # rest) =
     (page w url res \<and> next_page w res = Inr (Some url') \<and> chain w ((url', res') # rest))"

text \<open>
  Whether a record has the product identifier (a truthy \<open>api_id\<close>); what one iteration
  of the loop of \<open>generateReadme\<close> pushes on \<open>libraries\<close>, and what it probes.
\<close>

definition has_api_id :: "json \<Rightarrow> bool" where
  "has_api_id m = truthy (property m ''api_id'')"

definition pushed :: "world \<Rightarrow> json \<Rightarrow> json list" where
  "pushed w m = (case process_metadata w m of Inr (Some lib, ps) \<Rightarrow> [lib] | _ \<Rightarrow> [])"

definition probed :: "world \<Rightarrow> json \<Rightarrow> string list" where
  "probed w m = (case process_metadata w m of Inr (r, ps) \<Rightarrow> ps | _ \<Rightarrow> [])"

text \<open>The properties that \<open>generateReadme\<close> does not assign.\<close>

definition untouched :: "(string \<times> json) \<Rightarrow> bool" where
  "untouched p = (fst p \<noteq> ''name_pretty'' \<and> fst p \<noteq> ''support_documentation'')"

text \<open>
  The fetches that \<open>collectRepoMetadata\<close> does not survive: no response, a status
  outside 2xx other than 404, or a 2xx response whose content is missing or does not
  parse.
\<close>

definition fatal_fetch :: "world \<Rightarrow> string \<Rightarrow> bool" where
  "fatal_fetch w repo =
     (case github_get w (contents_url repo) of
        NoResponse \<Rightarrow> True
      | Responded res \<Rightarrow>
          if default_validateStatus (status res)
          then (case data_content res of
                  None \<Rightarrow> True
                | Some c \<Rightarrow> parse_content w c = None)
          else status res \<noteq> 404)"

subsection \<open>Example worlds and records\<close>

definition plain_response :: "nat \<Rightarrow> response" where
  "plain_response st =
     \<lparr>status = st, headers_link = None, data_items = None, data_content = None\<rparr>"

text \<open>A consistent comparator: code units compared after lower-casing, left to right.\<close>

fun compare_ci :: "string \<Rightarrow> string \<Rightarrow> int" where
  "compare_ci [] [] = 0"
| "compare_ci [] (y # ys) = - 1"
| "compare_ci (x # xs) [] = 1"
| "compare_ci (x # xs) (y # ys) =
     (if code_unit (lower_char x) < code_unit (lower_char y) then - 1
      else if code_unit (lower_char y) < code_unit (lower_char x) then 1
      else compare_ci xs ys)"

definition page2_url :: string where
  "page2_url = ''https://api.github.com/search/repositories?q=nodejs&per_page=100&page=2''"

definition page2_link :: string where
  "page2_link = ''<'' @ page2_url @ ''>; rel=next''"

definition example_parseLinkHeader :: "string \<Rightarrow> (string \<times> string) list option" where
  "example_parseLinkHeader h = (if h = page2_link then Some [(''next'', page2_url)] else Some [])"

definition example_world ::
  "(string \<Rightarrow> outcome) \<Rightarrow> (string \<Rightarrow> outcome) \<Rightarrow> (string \<Rightarrow> json option) \<Rightarrow> world" where
  "example_world get head parse =
     \<lparr>GITHUB_TOKEN = Some ''token'', github_get = get, http_head = head, parseLinkHeader = example_parseLinkHeader,
      URL_href = Some, parse_content = parse, localeCompare = compare_ci,
      template = Some ''# Libraries {{libraries}}'', tick = ''(tick)'', cross = ''(cross)''\<rparr>"

text \<open>A world in which every HEAD request is answered with the status \<open>st\<close>.\<close>

definition head_always :: "nat \<Rightarrow> world" where
  "head_always st =
     example_world (\<lambda>u. NoResponse) (\<lambda>u. Responded (plain_response st)) (\<lambda>c. None)"

definition vision_props :: "(string \<times> json) list" where
  "vision_props =
     [(''api_id'', JStr ''vision.googleapis.com''),
      (''name_pretty'', JStr ''Google Cloud Vision''),
      (''product_documentation'', JStr ''https://cloud.google.com/vision/docs/''),
      (''client_documentation'', JStr ''https://googleapis.dev/nodejs/vision/latest''),
      (''distribution_name'', JStr ''@google-cloud/vision''),
      (''requires_billing'', JBool True),
      (''repo'', JStr ''googleapis/nodejs-vision'')]"

definition logging_props :: "(string \<times> json) list" where
  "logging_props =
     [(''name_pretty'', JStr ''Stackdriver Logging''),
      (''product_documentation'', JStr ''https://cloud.google.com/logging/docs''),
      (''api_id'', JStr ''logging.googleapis.com''),
      (''repo'', JStr ''googleapis/nodejs-logging'')]"

text \<open>Two pages of search results, and the metadata files of some repositories.\<close>

definition search_page1 :: "string list \<Rightarrow> response" where
  "search_page1 items =
     (plain_response 200)\<lparr>headers_link := Some page2_link, data_items := Some items\<rparr>"

definition search_page2 :: "string list \<Rightarrow> response" where
  "search_page2 items = (plain_response 200)\<lparr>data_items := Some items\<rparr>"

definition example_github ::
  "string list \<Rightarrow> string list \<Rightarrow> (string \<times> string) list \<Rightarrow> string \<Rightarrow> outcome" where
  "example_github items1 items2 contents url =
     (if url = search_url then Responded (search_page1 items1)
      else if url = page2_url then Responded (search_page2 items2)
      else (case map_of (map (\<lambda>(repo, c). (contents_url repo, c)) contents) url of
              Some c \<Rightarrow> Responded ((plain_response 200)\<lparr>data_content := Some c\<rparr>)
            | None \<Rightarrow> Responded (plain_response 404)))"

definition two_pages :: "string list \<Rightarrow> string list \<Rightarrow> world" where
  "two_pages items1 items2 =
     example_world (example_github items1 items2 []) (\<lambda>u. NoResponse) (\<lambda>c. None)"

text \<open>Three metadata records, and the two files written for them.\<close>

definition common_props :: "(string \<times> json) list" where
  "common_props =
     [(''name_pretty'', JStr ''Google Cloud Common''),
      (''product_documentation'', JStr ''https://cloud.google.com/docs''),
      (''repo'', JStr ''googleapis/nodejs-common'')]"

definition asset_props :: "(string \<times> json) list" where
  "asset_props =
     [(''name_pretty'', JStr ''Cloud Asset Inventory''),
      (''api_id'', JStr ''cloudasset.googleapis.com''),
      (''client_documentation'', JStr ''https://googleapis.dev/nodejs/asset/latest''),
      (''distribution_name'', JStr ''@google-cloud/asset''),
      (''requires_billing'', JBool False),
      (''repo'', JStr ''googleapis/nodejs-asset'')]"

definition example_metadata :: "(string \<times> json) list" where
  "example_metadata =
     [(''googleapis/nodejs-vision'', JObj vision_props),
      (''googleapis/nodejs-common'', JObj common_props),
      (''googleapis/nodejs-asset'', JObj asset_props)]"

definition no_files :: files where
  "no_files = \<lparr>libraries_json = None, README_md = None\<rparr>"

definition vision_entry_props :: "(string \<times> json) list" where
  "vision_entry_props =
     [(''api_id'', JStr ''vision.googleapis.com''),
      (''name_pretty'', JStr ''Vision''),
      (''product_documentation'', JStr ''https://cloud.google.com/vision/docs/''),
      (''client_documentation'', JStr ''https://googleapis.dev/nodejs/vision/latest''),
      (''distribution_name'', JStr ''@google-cloud/vision''),
      (''requires_billing'', JBool True),
      (''repo'', JStr ''googleapis/nodejs-vision''),
      (''support_documentation'', JStr ''https://cloud.google.com/vision/docs/getting-support'')]"

definition vision_entry :: json where
  "vision_entry = JObj vision_entry_props"

definition asset_entry :: json where
  "asset_entry = JObj
     [(''name_pretty'', JStr ''Asset Inventory''),
      (''api_id'', JStr ''cloudasset.googleapis.com''),
      (''client_documentation'', JStr ''https://googleapis.dev/nodejs/asset/latest''),
      (''distribution_name'', JStr ''@google-cloud/asset''),
      (''requires_billing'', JBool False),
      (''repo'', JStr ''googleapis/nodejs-asset'')]"

definition asset_row :: string where
  "asset_row =
     ''| [Asset Inventory](https://github.com/googleapis/nodejs-asset)''
     @ '' | [:notebook:](https://googleapis.dev/nodejs/asset/latest)''
     @ '' | '' @ [CHR 0x60] @ ''npm i @google-cloud/asset'' @ [CHR 0x60]
     @ '' | [enable](https://console.cloud.google.com/flows/enableapi''
     @ ''?apiid=cloudasset.googleapis.com) | (tick) |'' @ [CHR 0x0A]"

definition vision_row :: string where
  "vision_row =
     ''| [Vision](https://github.com/googleapis/nodejs-vision)''
     @ '' | [:notebook:](https://googleapis.dev/nodejs/vision/latest)''
     @ '' | '' @ [CHR 0x60] @ ''npm i @google-cloud/vision'' @ [CHR 0x60]
     @ '' | [enable](https://console.cloud.google.com/flows/enableapi''
     @ ''?apiid=vision.googleapis.com) | (cross) |'' @ [CHR 0x0A]"

definition example_files :: files where
  "example_files =
     \<lparr>libraries_json = Some [asset_entry, vision_entry],
      README_md = Some (''# Libraries '' @ asset_row @ vision_row)\<rparr>"

text \<open>
  A world with three repositories on two pages: the first has no metadata file, the
  content of the second is not JSON.
\<close>

definition failing_world :: world where
  "failing_world =
     example_world
       (example_github [''googleapis/nodejs-vision'', ''googleapis/nodejs-logging'']
                       [''googleapis/nodejs-storage'']
                       [(''googleapis/nodejs-logging'', ''bm90IGpzb24='')])
       (\<lambda>u. NoResponse) (\<lambda>c. None)"

text \<open>
  \<open>localeCompare\<close> as a runtime without locale data computes it: the difference of the
  first code units that differ, or else of the lengths. A world with that comparison,
  and two records of which one has a name that starts in lower case.
\<close>

fun compare_code_units :: "string \<Rightarrow> string \<Rightarrow> int" where
  "compare_code_units [] [] = 0"
| "compare_code_units [] (y # ys) = - int (length (y # ys))"
| "compare_code_units (x # xs) [] = int (length (x # xs))"
| "compare_code_units (x # xs) (y # ys) =
     (if x = y then compare_code_units xs ys else int (code_unit x) - int (code_unit y))"





text \<open>
  A record without product documentation whose metadata file has a
  \<open>support_documentation\<close> of its own, the entry written for it and its row.
\<close>

definition tasks_props :: "(string \<times> json) list" where
  "tasks_props =
     [(''name_pretty'', JStr ''Cloud Tasks''),
      (''api_id'', JStr ''cloudtasks.googleapis.com''),
      (''support_documentation'', JStr ''https://cloud.google.com/tasks/docs/support''),
      (''client_documentation'', JStr ''https://googleapis.dev/nodejs/tasks/latest''),
      (''distribution_name'', JStr ''@google-cloud/tasks''),
      (''repo'', JStr ''googleapis/nodejs-tasks'')]"

definition tasks_entry :: json where
  "tasks_entry = JObj
     [(''name_pretty'', JStr ''Tasks''),
      (''api_id'', JStr ''cloudtasks.googleapis.com''),
      (''support_documentation'', JStr ''https://cloud.google.com/tasks/docs/support''),
      (''client_documentation'', JStr ''https://googleapis.dev/nodejs/tasks/latest''),
      (''distribution_name'', JStr ''@google-cloud/tasks''),
      (''repo'', JStr ''googleapis/nodejs-tasks'')]"

definition tasks_row :: string where
  "tasks_row =
     ''| [Tasks](https://github.com/googleapis/nodejs-tasks)''
     @ '' | [:notebook:](https://googleapis.dev/nodejs/tasks/latest)''
     @ '' | '' @ [CHR 0x60] @ ''npm i @google-cloud/tasks'' @ [CHR 0x60]
     @ '' | [enable](https://console.cloud.google.com/flows/enableapi''
     @ ''?apiid=cloudtasks.googleapis.com) | (tick) |'' @ [CHR 0x0A]"

section \<open>Properties\<close>

subsection \<open>The replacements agree with the patterns\<close>

inductive_cases matches_AtomE: "matches (Atom P) t"
inductive_cases matches_EpsE: "matches Eps t"
inductive_cases matches_SeqE: "matches (Seq r s) t"
inductive_cases matches_OptE: "matches (Opt r) t"

lemma matches_literal: "matches (literal p) t \<longleftrightarrow> t = p"
proof (induction p arbitrary: t)
  case Nil
  show ?case by (auto simp: literal.simps elim: matches_EpsE intro: matches.Eps)
next
  case (Cons c cs)
  show ?case
  proof
    assume "matches (literal (c # cs)) t"
    then obtain a b where "t = a @ b" "matches (Atom (\<lambda>x. x = c)) a" "matches (literal cs) b"
      by (auto simp: literal.simps elim: matches_SeqE)
    with Cons show "t = c # cs" by (auto elim: matches_AtomE)
  next
    assume "t = c # cs"
    moreover have "matches (Seq (Atom (\<lambda>x. x = c)) (literal cs)) ([c] @ cs)"
      by (intro matches.Seq matches.Atom) (simp_all add: Cons)
    ultimately show "matches (literal (c # cs)) t" by (simp add: literal.simps)
  qed
qed

lemma matches_name_pattern:
  "matches name_pattern t \<longleftrightarrow> t = ''Google Cloud '' \<or> t = ''Cloud ''"
proof
  assume "matches name_pattern t"
  then obtain a b where t: "t = a @ b" and a: "matches (Opt (literal ''Google '')) a"
    and b: "matches (literal ''Cloud '') b"
    unfolding name_pattern_def by (auto elim: matches_SeqE)
  from a have "a = [] \<or> a = ''Google ''"
    by (auto elim: matches_OptE simp: matches_literal)
  moreover from b have "b = ''Cloud ''" by (simp add: matches_literal)
  ultimately show "t = ''Google Cloud '' \<or> t = ''Cloud ''" using t by auto
next
  assume "t = ''Google Cloud '' \<or> t = ''Cloud ''"
  then show "matches name_pattern t"
  proof
    assume "t = ''Google Cloud ''"
    moreover have "matches name_pattern (''Google '' @ ''Cloud '')"
      unfolding name_pattern_def
      by (intro matches.Seq matches.Opt_present) (simp_all only: matches_literal)
    ultimately show ?thesis by simp
  next
    assume "t = ''Cloud ''"
    moreover have "matches name_pattern ([] @ ''Cloud '')"
      unfolding name_pattern_def
      by (intro matches.Seq matches.Opt_absent) (simp only: matches_literal)
    ultimately show ?thesis by simp
  qed
qed

lemma matches_Star_Atom: "matches (Star (Atom P)) t \<longleftrightarrow> list_all P t"
proof
  assume "matches (Star (Atom P)) t"
  then show "list_all P t"
    by (induction "Star (Atom P)" t rule: matches.induct) (auto elim: matches_AtomE)
next
  assume "list_all P t"
  then show "matches (Star (Atom P)) t"
  proof (induction t)
    case Nil
    show ?case by (rule matches.Star_stop)
  next
    case (Cons c cs)
    then have "matches (Star (Atom P)) ([c] @ cs)"
      by (intro matches.Star_again matches.Atom) simp_all
    then show ?case by simp
  qed
qed

lemma matches_slashes_pattern:
  "matches slashes_pattern t \<longleftrightarrow> list_all (\<lambda>x. x = CHR ''/'') t"
  by (simp add: slashes_pattern_def matches_Star_Atom)

lemma matches_one_or_more_any_char:
  assumes "matches (one_or_more any_char) a"
  shows "a \<noteq> [] \<and> list_all (\<lambda>x. \<not> is_line_terminator x) a"
proof -
  from assms obtain c cs where "a = c @ cs" "matches any_char c" "matches (Star any_char) cs"
    unfolding one_or_more_def by (auto elim: matches_SeqE)
  then show ?thesis
    by (auto simp: any_char_def matches_Star_Atom elim: matches_AtomE)
qed

lemma matches_Star_one_or_more:
  "matches (Star (one_or_more any_char)) t \<longleftrightarrow> list_all (\<lambda>x. \<not> is_line_terminator x) t"
proof
  assume "matches (Star (one_or_more any_char)) t"
  then show "list_all (\<lambda>x. \<not> is_line_terminator x) t"
    by (induction "Star (one_or_more any_char)" t rule: matches.induct) (auto dest: matches_one_or_more_any_char)
next
  assume "list_all (\<lambda>x. \<not> is_line_terminator x) t"
  then show "matches (Star (one_or_more any_char)) t"
  proof (induction t)
    case Nil
    show ?case by (rule matches.Star_stop)
  next
    case (Cons c cs)
    then have "matches (one_or_more any_char) ([c] @ [])"
      unfolding one_or_more_def any_char_def
      by (intro matches.Seq matches.Atom matches.Star_stop) simp
    with Cons have "matches (Star (one_or_more any_char)) (([c] @ []) @ cs)"
      by (intro matches.Star_again) simp_all
    then show ?case by simp
  qed
qed

lemma docs_no_line_terminator: "list_all (\<lambda>x. \<not> is_line_terminator x) ''docs/''"
  by code_simp

lemma docs_tail_matches_iff:
  "docs_tail_matches t \<longleftrightarrow>
     t = [] \<or> (\<exists>u. t = ''docs/'' @ u \<and> list_all (\<lambda>x. \<not> is_line_terminator x) u)"
proof
  assume "docs_tail_matches t"
  then have "t = [] \<or> (take (length ''docs/'') t = ''docs/''
      \<and> list_all (\<lambda>x. \<not> is_line_terminator x) (drop (length ''docs/'') t))"
    by (simp only: docs_tail_matches_def startsWith_def)
  then show "t = [] \<or> (\<exists>u. t = ''docs/'' @ u \<and> list_all (\<lambda>x. \<not> is_line_terminator x) u)"
  proof
    assume "t = []"
    then show ?thesis by simp
  next
    assume a: "take (length ''docs/'') t = ''docs/''
      \<and> list_all (\<lambda>x. \<not> is_line_terminator x) (drop (length ''docs/'') t)"
    have "t = take (length ''docs/'') t @ drop (length ''docs/'') t"
      by (simp only: append_take_drop_id)
    with a have "t = ''docs/'' @ drop (length ''docs/'') t
      \<and> list_all (\<lambda>x. \<not> is_line_terminator x) (drop (length ''docs/'') t)"
      by simp
    then show ?thesis by blast
  qed
next
  assume "t = [] \<or> (\<exists>u. t = ''docs/'' @ u \<and> list_all (\<lambda>x. \<not> is_line_terminator x) u)"
  then show "docs_tail_matches t"
    by (auto simp: docs_tail_matches_def startsWith_def)
qed

lemma matches_docs_pattern: "matches docs_pattern t \<longleftrightarrow> docs_tail_matches t"
proof
  assume "matches docs_pattern t"
  then have "t = [] \<or> (\<exists>u. t = ''docs/'' @ u \<and> list_all (\<lambda>x. \<not> is_line_terminator x) u)"
    unfolding docs_pattern_def
  proof (induction "Star (Seq (literal ''docs/'') (Star (one_or_more any_char)))" t rule: matches.induct)
    case Star_stop
    show ?case by simp
  next
    case (Star_again a b)
    from Star_again(1) obtain p u where a: "a = p @ u" and "matches (literal ''docs/'') p"
      and "matches (Star (one_or_more any_char)) u"
      by (auto elim: matches_SeqE)
    then have p: "p = ''docs/''" and u: "list_all (\<lambda>x. \<not> is_line_terminator x) u"
      by (simp_all add: matches_literal matches_Star_one_or_more)
    from Star_again(3) have "list_all (\<lambda>x. \<not> is_line_terminator x) b"
      using docs_no_line_terminator by auto
    with a p u have "a @ b = ''docs/'' @ (u @ b) \<and> list_all (\<lambda>x. \<not> is_line_terminator x) (u @ b)"
      by simp
    then show ?case by blast
  qed
  then show "docs_tail_matches t" by (simp only: docs_tail_matches_iff)
next
  assume "docs_tail_matches t"
  then consider "t = []" | u where "t = ''docs/'' @ u" "list_all (\<lambda>x. \<not> is_line_terminator x) u"
    unfolding docs_tail_matches_iff by blast
  then show "matches docs_pattern t"
  proof cases
    case 1
    then show ?thesis unfolding docs_pattern_def by (simp add: matches.Star_stop)
  next
    case 2
    have "matches (Seq (literal ''docs/'') (Star (one_or_more any_char))) (''docs/'' @ u)"
      by (intro matches.Seq) (simp_all only: matches_literal matches_Star_one_or_more 2)
    then have "matches docs_pattern ((''docs/'' @ u) @ [])"
      unfolding docs_pattern_def by (intro matches.Star_again matches.Star_stop)
    with 2 show ?thesis by simp
  qed
qed

text \<open>
  \<open>normalize_name\<close> removes a prefix that \<open>name_pattern\<close> matches and changes nothing
  when no prefix matches. The other two functions replace, by the replacement text,
  everything from the leftmost index at which the pattern matches the whole rest.
\<close>

lemma normalize_name_matches:
  "(matches name_pattern p \<longrightarrow> normalize_name (p @ r) = r)
   \<and> ((\<forall>n. \<not> matches name_pattern (take n s)) \<longrightarrow> normalize_name s = s)"
proof (intro conjI impI)
  assume "matches name_pattern p"
  then have "p = ''Google Cloud '' \<or> p = ''Cloud ''" by (simp only: matches_name_pattern)
  then show "normalize_name (p @ r) = r"
    by (auto simp: normalize_name_def startsWith_def)
next
  assume none: "\<forall>n. \<not> matches name_pattern (take n s)"
  have "\<not> startsWith s ''Google Cloud ''"
  proof
    assume "startsWith s ''Google Cloud ''"
    then have "matches name_pattern (take (length ''Google Cloud '') s)"
      by (simp only: startsWith_def matches_name_pattern) simp
    with none show False by blast
  qed
  moreover have "\<not> startsWith s ''Cloud ''"
  proof
    assume "startsWith s ''Cloud ''"
    then have "matches name_pattern (take (length ''Cloud '') s)"
      by (simp only: startsWith_def matches_name_pattern) simp
    with none show False by blast
  qed
  ultimately show "normalize_name s = s" by (simp add: normalize_name_def)
qed

lemma guarantee_trailing_slash_matches:
  "\<exists>i \<le> length s. matches slashes_pattern (drop i s)
     \<and> (\<forall>j < i. \<not> matches slashes_pattern (drop j s))
     \<and> guarantee_trailing_slash s = take i s @ ''/''"
proof (induction s)
  case Nil
  show ?case by (simp add: matches_slashes_pattern)
next
  case (Cons c cs)
  show ?case
  proof (cases "list_all (\<lambda>x. x = CHR ''/'') (c # cs)")
    case True
    then have "0 \<le> length (c # cs) \<and> matches slashes_pattern (drop 0 (c # cs))
     \<and> (\<forall>j < 0. \<not> matches slashes_pattern (drop j (c # cs)))
     \<and> guarantee_trailing_slash (c # cs) = take 0 (c # cs) @ ''/''"
      by (simp add: matches_slashes_pattern)
    then show ?thesis by blast
  next
    case False
    from Cons obtain i where i: "i \<le> length cs" "matches slashes_pattern (drop i cs)"
      "\<forall>j < i. \<not> matches slashes_pattern (drop j cs)"
      "guarantee_trailing_slash cs = take i cs @ ''/''"
      by blast
    have "\<not> matches slashes_pattern (drop j (c # cs))" if "j < Suc i" for j
    proof (cases j)
      case 0
      with False show ?thesis by (simp add: matches_slashes_pattern)
    next
      case (Suc j')
      with that i(3) show ?thesis by simp
    qed
    with i False have "Suc i \<le> length (c # cs) \<and> matches slashes_pattern (drop (Suc i) (c # cs))
     \<and> (\<forall>j < Suc i. \<not> matches slashes_pattern (drop j (c # cs)))
     \<and> guarantee_trailing_slash (c # cs) = take (Suc i) (c # cs) @ ''/''"
      by simp
    then show ?thesis by blast
  qed
qed

lemma replace_docs_tail_matches:
  "\<exists>i \<le> length s. matches docs_pattern (drop i s)
     \<and> (\<forall>j < i. \<not> matches docs_pattern (drop j s))
     \<and> replace_docs_tail s = take i s @ ''docs/getting-support''"
proof (induction s)
  case Nil
  show ?case by (simp add: matches_docs_pattern docs_tail_matches_def)
next
  case (Cons c cs)
  show ?case
  proof (cases "docs_tail_matches (c # cs)")
    case True
    then have "0 \<le> length (c # cs) \<and> matches docs_pattern (drop 0 (c # cs))
     \<and> (\<forall>j < 0. \<not> matches docs_pattern (drop j (c # cs)))
     \<and> replace_docs_tail (c # cs) = take 0 (c # cs) @ ''docs/getting-support''"
      by (simp add: matches_docs_pattern)
    then show ?thesis by blast
  next
    case False
    from Cons obtain i where i: "i \<le> length cs" "matches docs_pattern (drop i cs)"
      "\<forall>j < i. \<not> matches docs_pattern (drop j cs)"
      "replace_docs_tail cs = take i cs @ ''docs/getting-support''"
      by blast
    have "\<not> matches docs_pattern (drop j (c # cs))" if "j < Suc i" for j
    proof (cases j)
      case 0
      with False show ?thesis by (simp add: matches_docs_pattern)
    next
      case (Suc j')
      with that i(3) show ?thesis by simp
    qed
    with i False have "Suc i \<le> length (c # cs) \<and> matches docs_pattern (drop (Suc i) (c # cs))
     \<and> (\<forall>j < Suc i. \<not> matches docs_pattern (drop j (c # cs)))
     \<and> replace_docs_tail (c # cs) = take (Suc i) (c # cs) @ ''docs/getting-support''"
      by simp
    then show ?thesis by blast
  qed
qed

subsection \<open>Name normalisation\<close>

text \<open>
  C5. Normalisation removes one leading \<open>Google Cloud \<close> or \<open>Cloud \<close> and nothing else:
  whatever follows the prefix is returned as it is (also when it starts with \<open>Cloud \<close>
  again), a name that starts with neither literal is unchanged, and the match is
  case-sensitive. \<open>Google Cloud Storage\<close> gives \<open>Storage\<close>, \<open>Cloud Vision\<close> gives \<open>Vision\<close>
  and \<open>BigQuery\<close> is unchanged.
\<close>

theorem normalize_name_removes_one_prefix:
  "normalize_name (''Google Cloud '' @ r) = r
   \<and> normalize_name (''Cloud '' @ r) = r
   \<and> (\<not> startsWith s ''Google Cloud '' \<and> \<not> startsWith s ''Cloud '' \<longrightarrow> normalize_name s = s)
   \<and> normalize_name ''Google Cloud Storage'' = ''Storage''
   \<and> normalize_name ''Cloud Vision'' = ''Vision''
   \<and> normalize_name ''BigQuery'' = ''BigQuery''"
  by (simp add: normalize_name_def startsWith_def)

theorem normalize_name_removes_one_prefix_witness:
  "normalize_name ''Google Cloud Cloud Spanner'' = ''Cloud Spanner''
   \<and> normalize_name ''Cloud Cloud Spanner'' = ''Cloud Spanner''
   \<and> \<not> startsWith ''google cloud Storage'' ''Google Cloud ''
   \<and> \<not> startsWith ''google cloud Storage'' ''Cloud ''
   \<and> normalize_name ''google cloud Storage'' = ''google cloud Storage''"
  using normalize_name_removes_one_prefix [of "''Cloud Spanner''" "''google cloud Storage''"]
  by (simp add: startsWith_def)

subsection \<open>The candidate support URL\<close>

lemma strip_slashes_all: "list_all (\<lambda>x. x = CHR ''/'') s \<Longrightarrow> strip_slashes s = []"
  by (simp add: strip_slashes_def list_all_iff)

lemma strip_slashes_Cons:
  "strip_slashes (c # cs) =
     (if list_all (\<lambda>x. x = CHR ''/'') (c # cs) then [] else c # strip_slashes cs)"
proof (cases "list_all (\<lambda>x. x = CHR ''/'') cs")
  case True
  then have "strip_slashes cs = []" by (rule strip_slashes_all)
  with True show ?thesis
    by (simp add: strip_slashes_def dropWhile_append list_all_iff)
next
  case False
  then show ?thesis
    by (simp add: strip_slashes_def dropWhile_append list_all_iff)
qed

lemma guarantee_trailing_slash_eq: "guarantee_trailing_slash s = strip_slashes s @ ''/''"
proof (induction s)
  case Nil
  show ?case by (simp add: strip_slashes_def)
next
  case (Cons c cs)
  show ?case
    unfolding strip_slashes_Cons guarantee_trailing_slash.simps using Cons.IH by simp
qed

lemma strip_slashes_last: "strip_slashes s = [] \<or> last (strip_slashes s) \<noteq> CHR ''/''"
proof -
  have "dropWhile (\<lambda>c. c = CHR ''/'') (rev s) = []
        \<or> hd (dropWhile (\<lambda>c. c = CHR ''/'') (rev s)) \<noteq> CHR ''/''"
    using hd_dropWhile [of "\<lambda>c. c = CHR ''/''" "rev s"] by blast
  then show ?thesis by (auto simp: strip_slashes_def last_rev)
qed

lemma strip_slashes_run: "\<exists>n. s = strip_slashes s @ replicate n (CHR ''/'')"
proof -
  let ?run = "takeWhile (\<lambda>c. c = CHR ''/'') (rev s)"
  have "rev s = ?run @ dropWhile (\<lambda>c. c = CHR ''/'') (rev s)" by simp
  then have "s = strip_slashes s @ rev ?run"
    unfolding strip_slashes_def by (metis rev_append rev_rev_ident)
  moreover have "replicate (length (rev ?run)) (CHR ''/'') = rev ?run"
    by (rule replicate_length_same) (auto dest: set_takeWhileD)
  ultimately show ?thesis by metis
qed

lemma docs_tail_matches_no_lt:
  "list_all (\<lambda>x. \<not> is_line_terminator x) t \<Longrightarrow> t \<noteq> [] \<Longrightarrow>
   docs_tail_matches t = startsWith t ''docs/''"
  by (auto simp: docs_tail_matches_def list_all_iff dest: in_set_dropD)

lemma replace_docs_tail_no_lt:
  "list_all (\<lambda>x. \<not> is_line_terminator x) t \<Longrightarrow>
   replace_docs_tail t =
     (case split_at_first ''docs/'' t of
        None \<Rightarrow> t @ ''docs/getting-support''
      | Some (p, r) \<Rightarrow> p @ ''docs/getting-support'')"
proof (induction t)
  case Nil
  show ?case by simp
next
  case (Cons c cs)
  then have m: "docs_tail_matches (c # cs) = startsWith (c # cs) ''docs/''"
    using docs_tail_matches_no_lt [of "c # cs"] by simp
  from Cons show ?case
    unfolding replace_docs_tail.simps split_at_first.simps m
    by (auto split: option.splits)
qed

lemma no_lt_guarantee_trailing_slash:
  assumes "list_all (\<lambda>x. \<not> is_line_terminator x) s"
  shows "list_all (\<lambda>x. \<not> is_line_terminator x) (strip_slashes s @ ''/'')"
proof -
  obtain n where "s = strip_slashes s @ replicate n (CHR ''/'')"
    using strip_slashes_run by blast
  then have "set (strip_slashes s) \<subseteq> set s"
    by (metis Un_upper1 set_append)
  with assms show ?thesis
    by (auto simp: list_all_iff is_line_terminator_def code_unit_def)
qed

text \<open>
  C6. The candidate is computed in two steps. The first leaves the input without its
  trailing run of \<open>/\<close> (a run of any length, also none) followed by one \<open>/\<close>. The second
  replaces everything from \<open>docs/\<close> on by \<open>docs/getting-support\<close>: on an input without
  line terminators, from the first \<open>docs/\<close> on, and when \<open>docs/\<close> does not occur the
  literal is appended. The URL
  \<open>https://cloud.google.com/container-registry/docs/container-analysis\<close> gives
  \<open>https://cloud.google.com/container-registry/docs/getting-support\<close>.
\<close>

theorem derive_supportDocsUrl_steps:
  "guarantee_trailing_slash s = strip_slashes s @ ''/''
   \<and> (\<exists>n. s = strip_slashes s @ replicate n (CHR ''/''))
   \<and> (strip_slashes s = [] \<or> last (strip_slashes s) \<noteq> CHR ''/'')
   \<and> derive_supportDocsUrl s = replace_docs_tail (strip_slashes s @ ''/'')
   \<and> (list_all (\<lambda>x. \<not> is_line_terminator x) s \<longrightarrow>
        derive_supportDocsUrl s =
          (case split_at_first ''docs/'' (strip_slashes s @ ''/'') of
             None \<Rightarrow> strip_slashes s @ ''/'' @ ''docs/getting-support''
           | Some (p, r) \<Rightarrow> p @ ''docs/getting-support''))
   \<and> derive_supportDocsUrl
         ''https://cloud.google.com/container-registry/docs/container-analysis''
       = ''https://cloud.google.com/container-registry/docs/getting-support''"
proof -
  have example:
    "derive_supportDocsUrl
       ''https://cloud.google.com/container-registry/docs/container-analysis''
     = ''https://cloud.google.com/container-registry/docs/getting-support''"
    by code_simp
  have general:
    "derive_supportDocsUrl s =
       (case split_at_first ''docs/'' (strip_slashes s @ ''/'') of
          None \<Rightarrow> strip_slashes s @ ''/'' @ ''docs/getting-support''
        | Some (p, r) \<Rightarrow> p @ ''docs/getting-support'')"
    if "list_all (\<lambda>x. \<not> is_line_terminator x) s"
    using replace_docs_tail_no_lt [OF no_lt_guarantee_trailing_slash [OF that]]
    by (simp add: derive_supportDocsUrl_def guarantee_trailing_slash_eq split: option.splits)
  show ?thesis
    using example general strip_slashes_run [of s] strip_slashes_last [of s]
    by (simp add: derive_supportDocsUrl_def guarantee_trailing_slash_eq)
qed

theorem derive_supportDocsUrl_steps_witness:
  "list_all (\<lambda>x. \<not> is_line_terminator x) ''https://cloud.google.com/natural-language/docs///''
   \<and> strip_slashes ''https://cloud.google.com/natural-language/docs///''
       = ''https://cloud.google.com/natural-language/docs''
   \<and> last ''https://cloud.google.com/natural-language/docs'' \<noteq> CHR ''/''
   \<and> split_at_first ''docs/'' ''https://cloud.google.com/natural-language/docs/''
       = Some (''https://cloud.google.com/natural-language/'', [])
   \<and> derive_supportDocsUrl ''https://cloud.google.com/natural-language/docs///''
       = ''https://cloud.google.com/natural-language/docs/getting-support''"
proof -
  have no_lt:
    "list_all (\<lambda>x. \<not> is_line_terminator x) ''https://cloud.google.com/natural-language/docs///''"
    by code_simp
  have strip:
    "strip_slashes ''https://cloud.google.com/natural-language/docs///''
       = ''https://cloud.google.com/natural-language/docs''"
    by code_simp
  have split:
    "split_at_first ''docs/'' ''https://cloud.google.com/natural-language/docs/''
       = Some (''https://cloud.google.com/natural-language/'', [])"
    by code_simp
  from derive_supportDocsUrl_steps [of "''https://cloud.google.com/natural-language/docs///''"]
       no_lt
  have "derive_supportDocsUrl ''https://cloud.google.com/natural-language/docs///'' =
          (case split_at_first ''docs/''
                  (strip_slashes ''https://cloud.google.com/natural-language/docs///'' @ ''/'') of
             None \<Rightarrow> strip_slashes ''https://cloud.google.com/natural-language/docs///''
                       @ ''/'' @ ''docs/getting-support''
           | Some (p, r) \<Rightarrow> p @ ''docs/getting-support'')"
    by blast
  then have "derive_supportDocsUrl ''https://cloud.google.com/natural-language/docs///''
       = ''https://cloud.google.com/natural-language/docs/getting-support''"
    unfolding strip using split by simp
  with no_lt strip split show ?thesis by simp
qed

subsection \<open>The HEAD probe and the support URL\<close>

lemma process_metadata_probe:
  assumes "truthy (map_of props ''api_id'')"
    and "map_of props ''name_pretty'' = Some (JStr name)"
    and "map_of props ''product_documentation'' = Some (JStr pd)"
    and "pd \<noteq> []"
    and "http_head w (if is_stackdriver (normalize_name name) then stackdriver_support
                      else derive_supportDocsUrl pd) = Responded res"
  shows "process_metadata w (JObj props) =
           Inr (Some (JObj (AList.update ''support_documentation''
                     (JStr (if status res = 404 then pd
                            else if is_stackdriver (normalize_name name) then stackdriver_support
                            else derive_supportDocsUrl pd))
                     (AList.update ''name_pretty'' (JStr (normalize_name name)) props))),
                [if is_stackdriver (normalize_name name) then stackdriver_support
                 else derive_supportDocsUrl pd])"
  using assms
  by (simp add: process_metadata_def update_conv' head_request_def gaxios_request_def Let_def)

lemma head_request_never_throws_on_status:
  "http_head w url = Responded res \<Longrightarrow> head_request w url = Inr res"
  by (simp add: head_request_def gaxios_request_def)

text \<open>
  C3. A record with a product identifier, a string as name that is not a stackdriver
  name, and a non-empty product-documentation URL: the candidate derived from the URL
  is the one URL probed; the HEAD request returns the response whatever its status (it
  does not throw on a status outside 2xx); with status 404 \<open>support_documentation\<close> is the
  \<open>product_documentation\<close> value itself, with any other status it is the candidate.
\<close>

theorem head_probe_404_falls_back:
  assumes "truthy (map_of props ''api_id'')"
    and "map_of props ''name_pretty'' = Some (JStr name)"
    and "map_of props ''product_documentation'' = Some (JStr pd)"
    and "pd \<noteq> []"
    and "\<not> is_stackdriver (normalize_name name)"
    and "http_head w (derive_supportDocsUrl pd) = Responded res"
  shows "head_request w (derive_supportDocsUrl pd) = Inr res
    \<and> process_metadata w (JObj props) =
        Inr (Some (JObj (AList.update ''support_documentation''
                    (JStr (if status res = 404 then pd else derive_supportDocsUrl pd))
                    (AList.update ''name_pretty'' (JStr (normalize_name name)) props))),
             [derive_supportDocsUrl pd])
    \<and> property (JObj (AList.update ''support_documentation''
                    (JStr (if status res = 404 then pd else derive_supportDocsUrl pd))
                    (AList.update ''name_pretty'' (JStr (normalize_name name)) props)))
         ''support_documentation''
       = Some (JStr (if status res = 404 then pd else derive_supportDocsUrl pd))"
  using process_metadata_probe [of props name pd w res] assms
        head_request_never_throws_on_status [of w "derive_supportDocsUrl pd" res]
  by (simp add: property_def update_conv')

theorem head_probe_404_falls_back_witness:
  "process_metadata (head_always 404) (JObj vision_props) =
     Inr (Some (JObj
       [(''api_id'', JStr ''vision.googleapis.com''),
        (''name_pretty'', JStr ''Vision''),
        (''product_documentation'', JStr ''https://cloud.google.com/vision/docs/''),
        (''client_documentation'', JStr ''https://googleapis.dev/nodejs/vision/latest''),
        (''distribution_name'', JStr ''@google-cloud/vision''),
        (''requires_billing'', JBool True),
        (''repo'', JStr ''googleapis/nodejs-vision''),
        (''support_documentation'', JStr ''https://cloud.google.com/vision/docs/'')]),
       [''https://cloud.google.com/vision/docs/getting-support''])
   \<and> head_request (head_always 500) ''https://cloud.google.com/vision/docs/getting-support''
       = Inr (plain_response 500)
   \<and> process_metadata (head_always 500) (JObj vision_props) =
     Inr (Some (JObj
       [(''api_id'', JStr ''vision.googleapis.com''),
        (''name_pretty'', JStr ''Vision''),
        (''product_documentation'', JStr ''https://cloud.google.com/vision/docs/''),
        (''client_documentation'', JStr ''https://googleapis.dev/nodejs/vision/latest''),
        (''distribution_name'', JStr ''@google-cloud/vision''),
        (''requires_billing'', JBool True),
        (''repo'', JStr ''googleapis/nodejs-vision''),
        (''support_documentation'',
         JStr ''https://cloud.google.com/vision/docs/getting-support'')]),
       [''https://cloud.google.com/vision/docs/getting-support''])"
proof -
  have api: "truthy (map_of vision_props ''api_id'')"
    by code_simp
  have name: "map_of vision_props ''name_pretty'' = Some (JStr ''Google Cloud Vision'')"
    by code_simp
  have pd: "map_of vision_props ''product_documentation''
              = Some (JStr ''https://cloud.google.com/vision/docs/'')"
    by code_simp
  have ne: "''https://cloud.google.com/vision/docs/'' \<noteq> []"
    by simp
  have not_sd: "\<not> is_stackdriver (normalize_name ''Google Cloud Vision'')"
    by code_simp
  have cand: "derive_supportDocsUrl ''https://cloud.google.com/vision/docs/''
                = ''https://cloud.google.com/vision/docs/getting-support''"
    by code_simp
  have norm: "normalize_name ''Google Cloud Vision'' = ''Vision''"
    by code_simp
  have head: "http_head (head_always st) (derive_supportDocsUrl ''https://cloud.google.com/vision/docs/'')
                = Responded (plain_response st)" for st
    by (simp add: head_always_def example_world_def)
  have upd: "AList.update ''support_documentation'' (JStr u)
               (AList.update ''name_pretty'' (JStr ''Vision'') vision_props) =
       [(''api_id'', JStr ''vision.googleapis.com''),
        (''name_pretty'', JStr ''Vision''),
        (''product_documentation'', JStr ''https://cloud.google.com/vision/docs/''),
        (''client_documentation'', JStr ''https://googleapis.dev/nodejs/vision/latest''),
        (''distribution_name'', JStr ''@google-cloud/vision''),
        (''requires_billing'', JBool True),
        (''repo'', JStr ''googleapis/nodejs-vision''),
        (''support_documentation'', JStr u)]" for u
    by (simp add: vision_props_def)
  show ?thesis
    using head_probe_404_falls_back [OF api name pd ne not_sd head [of 404]]
          head_probe_404_falls_back [OF api name pd ne not_sd head [of 500]]
    unfolding cand norm upd
    by (simp add: plain_response_def)
qed

text \<open>
  C1 as stated fails: when the HEAD probe of the fixed stackdriver URL is answered with
  404, \<open>support_documentation\<close> is the record's own \<open>product_documentation\<close>.
\<close>

theorem stackdriver_probe_404_counterexample:
  "is_stackdriver (normalize_name ''Stackdriver Logging'')
   \<and> process_metadata (head_always 404) (JObj logging_props) =
       Inr (Some (JObj
         [(''name_pretty'', JStr ''Stackdriver Logging''),
          (''product_documentation'', JStr ''https://cloud.google.com/logging/docs''),
          (''api_id'', JStr ''logging.googleapis.com''),
          (''repo'', JStr ''googleapis/nodejs-logging''),
          (''support_documentation'', JStr ''https://cloud.google.com/logging/docs'')]),
        [''https://cloud.google.com/stackdriver/docs/getting-support''])
   \<and> ''https://cloud.google.com/logging/docs'' \<noteq> stackdriver_support"
  by code_simp

text \<open>
  C1, amended. For a record with a product identifier, a name that after normalisation,
  lower-casing and trimming starts with \<open>stackdriver\<close>, and a non-empty
  product-documentation URL, the URL probed is the fixed constant, whatever the derived
  candidate; \<open>support_documentation\<close> is that constant when the status of the probe is not
  404, and the \<open>product_documentation\<close> value when it is 404.
\<close>

theorem stackdriver_probes_fixed_url:
  assumes "truthy (map_of props ''api_id'')"
    and "map_of props ''name_pretty'' = Some (JStr name)"
    and "map_of props ''product_documentation'' = Some (JStr pd)"
    and "pd \<noteq> []"
    and "is_stackdriver (normalize_name name)"
    and "http_head w stackdriver_support = Responded res"
  shows "process_metadata w (JObj props) =
        Inr (Some (JObj (AList.update ''support_documentation''
                    (JStr (if status res = 404 then pd else stackdriver_support))
                    (AList.update ''name_pretty'' (JStr (normalize_name name)) props))),
             [stackdriver_support])
    \<and> property (JObj (AList.update ''support_documentation''
                    (JStr (if status res = 404 then pd else stackdriver_support))
                    (AList.update ''name_pretty'' (JStr (normalize_name name)) props)))
         ''support_documentation''
       = Some (JStr (if status res = 404 then pd else stackdriver_support))"
  using process_metadata_probe [of props name pd w res] assms
  by (simp add: property_def update_conv')

theorem stackdriver_probes_fixed_url_witness:
  "process_metadata (head_always 200) (JObj logging_props) =
       Inr (Some (JObj
         [(''name_pretty'', JStr ''Stackdriver Logging''),
          (''product_documentation'', JStr ''https://cloud.google.com/logging/docs''),
          (''api_id'', JStr ''logging.googleapis.com''),
          (''repo'', JStr ''googleapis/nodejs-logging''),
          (''support_documentation'',
           JStr ''https://cloud.google.com/stackdriver/docs/getting-support'')]),
        [''https://cloud.google.com/stackdriver/docs/getting-support''])"
proof -
  have api: "truthy (map_of logging_props ''api_id'')"
    by code_simp
  have name: "map_of logging_props ''name_pretty'' = Some (JStr ''Stackdriver Logging'')"
    by code_simp
  have pd: "map_of logging_props ''product_documentation''
              = Some (JStr ''https://cloud.google.com/logging/docs'')"
    by code_simp
  have ne: "''https://cloud.google.com/logging/docs'' \<noteq> []"
    by simp
  have sd: "is_stackdriver (normalize_name ''Stackdriver Logging'')"
    by code_simp
  have norm: "normalize_name ''Stackdriver Logging'' = ''Stackdriver Logging''"
    by code_simp
  have head: "http_head (head_always 200) stackdriver_support = Responded (plain_response 200)"
    by (simp add: head_always_def example_world_def)
  have upd: "AList.update ''support_documentation'' (JStr u)
               (AList.update ''name_pretty'' (JStr ''Stackdriver Logging'') logging_props) =
         [(''name_pretty'', JStr ''Stackdriver Logging''),
          (''product_documentation'', JStr ''https://cloud.google.com/logging/docs''),
          (''api_id'', JStr ''logging.googleapis.com''),
          (''repo'', JStr ''googleapis/nodejs-logging''),
          (''support_documentation'', JStr u)]" for u
    by (simp add: logging_props_def)
  show ?thesis
    using stackdriver_probes_fixed_url [OF api name pd ne sd head]
    unfolding norm upd
    by (simp add: plain_response_def stackdriver_support_def)
qed

subsection \<open>Repository discovery\<close>

lemma page_items: "page w url res \<Longrightarrow> data_items res = Some (items_of res)"
  by (auto simp: page_def items_of_def)

lemma getRepos_loop_step:
  assumes "page w url res"
  shows "getRepos_loop w url repos requested =
           (case next_page w res of
              Inl e \<Rightarrow> Some (Inl e)
            | Inr None \<Rightarrow> Some (Inr (repos @ items_of res, requested @ [url]))
            | Inr (Some url') \<Rightarrow> getRepos_loop w url' (repos @ items_of res) (requested @ [url]))"
proof -
  from assms have g: "github_request w url = Inr res" by (simp add: page_def)
  show ?thesis
    by (subst getRepos_loop.simps) (simp add: g page_items [OF assms])
qed

lemma getRepos_loop_chain:
  "chain w ((url, res) # rest) \<Longrightarrow>
   getRepos_loop w url repos requested =
     Some (Inr (repos @ concat (map (items_of \<circ> snd) ((url, res) # rest)),
                requested @ map fst ((url, res) # rest)))"
proof (induction rest arbitrary: url res repos requested)
  case Nil
  then have "page w url res" and "next_page w res = Inr None" by simp_all
  then show ?case
    by (simp add: getRepos_loop_step [of w url res])
next
  case (Cons p rest)
  obtain url' res' where p: "p = (url', res')" by (cases p)
  from Cons.prems have 1: "page w url res" and 2: "next_page w res = Inr (Some url')"
    and 3: "chain w ((url', res') # rest)"
    by (simp_all add: p)
  have "getRepos_loop w url repos requested =
          getRepos_loop w url' (repos @ items_of res) (requested @ [url])"
    using 2 by (simp add: getRepos_loop_step [OF 1])
  also have "\<dots> = Some (Inr ((repos @ items_of res) @ concat (map (items_of \<circ> snd) ((url', res') # rest)),
                (requested @ [url]) @ map fst ((url', res') # rest)))"
    by (rule Cons.IH [OF 3])
  finally show ?case
    by (simp add: p o_def)
qed

lemma getRepos_loop_returns_aux:
  assumes "getRepos_loop w url repos requested = Some y"
  shows "\<forall>repos' requested'. y = Inr (repos', requested') \<longrightarrow>
      (\<exists>res rest. chain w ((url, res) # rest)
         \<and> repos' = repos @ concat (map (items_of \<circ> snd) ((url, res) # rest))
         \<and> requested' = requested @ map fst ((url, res) # rest))"
  using assms
proof (induct rule: getRepos_loop.raw_induct [rotated, consumes 1])
  case (1 loop w url repos requested y)
  show ?case
  proof (intro allI impI)
    fix repos' requested'
    assume y: "y = Inr (repos', requested')"
    let ?goal = "\<exists>res rest. chain w ((url, res) # rest)
         \<and> repos' = repos @ concat (map (items_of \<circ> snd) ((url, res) # rest))
         \<and> requested' = requested @ map fst ((url, res) # rest)"
    show ?goal
    proof (cases "github_request w url")
      case (Inl e)
      with "1"(2) y show ?thesis by simp
    next
      case res: (Inr res)
      show ?thesis
      proof (cases "data_items res")
        case None
        with "1"(2) y res show ?thesis by simp
      next
        case items: (Some items)
        have pg: "page w url res" and it: "items_of res = items"
          using res items by (simp_all add: page_def items_of_def)
        show ?thesis
        proof (cases "next_page w res")
          case (Inl e)
          with "1"(2) y res items show ?thesis by simp
        next
          case nxt: (Inr nxt)
          show ?thesis
          proof (cases nxt)
            case None
            with "1"(2) y res items nxt
            have "repos' = repos @ items" and "requested' = requested @ [url]"
              by simp_all
            moreover from pg nxt None have "chain w [(url, res)]" by simp
            ultimately have "chain w ((url, res) # [])
               \<and> repos' = repos @ concat (map (items_of \<circ> snd) ((url, res) # []))
               \<and> requested' = requested @ map fst ((url, res) # [])"
              using it by simp
            then show ?thesis by (intro exI)
          next
            case (Some url')
            with "1"(2) y res items nxt
            have l: "loop w url' (repos @ items) (requested @ [url])
                    = Some (Inr (repos', requested'))"
              by simp
            from "1"(1) [OF l, rule_format, OF refl] obtain res' rest' where
              c: "chain w ((url', res') # rest')"
              and r: "repos' = (repos @ items) @ concat (map (items_of \<circ> snd) ((url', res') # rest'))"
              and q: "requested' = (requested @ [url]) @ map fst ((url', res') # rest')"
              by (elim exE conjE)
            from c pg nxt Some have "chain w ((url, res) # (url', res') # rest')" by simp
            moreover from r it
            have "repos' = repos @ concat (map (items_of \<circ> snd) ((url, res) # (url', res') # rest'))"
              by simp
            moreover from q
            have "requested' = requested @ map fst ((url, res) # (url', res') # rest')"
              by simp
            ultimately show ?thesis by (intro exI conjI)
          qed
        qed
      qed
    qed
  qed
qed

text \<open>
  C2 as stated fails: the loop appends the items of every page and never removes a
  duplicate. When two pages name the same repository, it is returned twice.
\<close>

theorem getRepos_duplicates_counterexample:
  "getRepos (two_pages [''googleapis/nodejs-vision'', ''googleapis/nodejs-logging'']
                       [''googleapis/nodejs-vision'', ''googleapis/nodejs-storage''])
     = Some (Inr ([''googleapis/nodejs-vision'', ''googleapis/nodejs-logging'',
                   ''googleapis/nodejs-vision'', ''googleapis/nodejs-storage''],
                  [search_url, page2_url]))
   \<and> \<not> distinct [''googleapis/nodejs-vision'', ''googleapis/nodejs-logging'',
                   ''googleapis/nodejs-vision'', ''googleapis/nodejs-storage'']"
  by code_simp

text \<open>
  C2, amended. Discovery requests the search URL and then each URL that the previous
  response names as next page; it stops at the first response that names none. When the
  pages are served in such a row, it returns the items of all pages, concatenated in
  page order, having requested exactly the URLs of the row; and it returns nothing else:
  whenever it returns, there is such a row. No identifier is removed, so the result is
  free of duplicates exactly when the concatenation of the pages is.
\<close>

theorem getRepos_concatenates_pages:
  "(chain w ((search_url, res) # rest) \<longrightarrow>
      getRepos w = Some (Inr (concat (map (items_of \<circ> snd) ((search_url, res) # rest)),
                              map fst ((search_url, res) # rest))))
   \<and> (getRepos w = Some (Inr (repos, requested)) \<longrightarrow>
        (\<exists>res rest. chain w ((search_url, res) # rest)
           \<and> repos = concat (map (items_of \<circ> snd) ((search_url, res) # rest))
           \<and> requested = map fst ((search_url, res) # rest)
           \<and> (distinct repos \<longleftrightarrow>
                distinct (concat (map (items_of \<circ> snd) ((search_url, res) # rest))))))"
proof (intro conjI impI)
  assume "chain w ((search_url, res) # rest)"
  from getRepos_loop_chain [OF this, of "[]" "[]"]
  show "getRepos w = Some (Inr (concat (map (items_of \<circ> snd) ((search_url, res) # rest)),
                              map fst ((search_url, res) # rest)))"
    by (simp add: getRepos_def)
next
  assume "getRepos w = Some (Inr (repos, requested))"
  then have "getRepos_loop w search_url [] [] = Some (Inr (repos, requested))"
    by (simp add: getRepos_def)
  from getRepos_loop_returns_aux [OF this, rule_format, OF refl]
  obtain res rest where c: "chain w ((search_url, res) # rest)"
    and r: "repos = [] @ concat (map (items_of \<circ> snd) ((search_url, res) # rest))"
    and q: "requested = [] @ map fst ((search_url, res) # rest)"
    by (elim exE conjE)
  from r have r': "repos = concat (map (items_of \<circ> snd) ((search_url, res) # rest))"
    by (simp only: append_Nil)
  from q have q': "requested = map fst ((search_url, res) # rest)"
    by (simp only: append_Nil)
  from r' have d: "distinct repos \<longleftrightarrow>
      distinct (concat (map (items_of \<circ> snd) ((search_url, res) # rest)))"
    by (rule arg_cong)
  from c r' q' d
  show "\<exists>res rest. chain w ((search_url, res) # rest)
           \<and> repos = concat (map (items_of \<circ> snd) ((search_url, res) # rest))
           \<and> requested = map fst ((search_url, res) # rest)
           \<and> (distinct repos \<longleftrightarrow>
                distinct (concat (map (items_of \<circ> snd) ((search_url, res) # rest))))"
    by (intro exI conjI)
qed

lemma two_pages_chain:
  "chain (two_pages items1 items2)
     [(search_url, search_page1 items1), (page2_url, search_page2 items2)]"
proof -
  have ne: "page2_url \<noteq> search_url" by code_simp
  have link: "page2_link \<noteq> []" by code_simp
  show ?thesis
    by (simp add: page_def github_request_def gaxios_request_def default_validateStatus_def
      two_pages_def example_world_def example_github_def search_page1_def search_page2_def
      plain_response_def next_page_def example_parseLinkHeader_def ne link)
qed

theorem getRepos_concatenates_pages_witness:
  "chain (two_pages [''googleapis/nodejs-vision'', ''googleapis/nodejs-logging'']
                    [''googleapis/nodejs-storage''])
     [(search_url, search_page1 [''googleapis/nodejs-vision'', ''googleapis/nodejs-logging'']),
      (page2_url, search_page2 [''googleapis/nodejs-storage''])]
   \<and> getRepos (two_pages [''googleapis/nodejs-vision'', ''googleapis/nodejs-logging'']
                          [''googleapis/nodejs-storage''])
     = Some (Inr ([''googleapis/nodejs-vision'', ''googleapis/nodejs-logging'',
                   ''googleapis/nodejs-storage''],
                  [search_url, page2_url]))"
  using two_pages_chain [of "[''googleapis/nodejs-vision'', ''googleapis/nodejs-logging'']"
                            "[''googleapis/nodejs-storage'']"]
    getRepos_concatenates_pages
      [of "two_pages [''googleapis/nodejs-vision'', ''googleapis/nodejs-logging'']
                     [''googleapis/nodejs-storage'']"
          "search_page1 [''googleapis/nodejs-vision'', ''googleapis/nodejs-logging'']"
          "[(page2_url, search_page2 [''googleapis/nodejs-storage''])]"]
  by (simp add: items_of_def search_page1_def search_page2_def)

subsection \<open>The loop of \<open>generateReadme\<close> and the sort\<close>

lemma process_metadata_skip:
  "process_metadata w m = Inr (None, ps) \<Longrightarrow> \<not> has_api_id m \<and> ps = []"
  unfolding process_metadata_def has_api_id_def property_def
  by (cases m) (auto simp: Let_def split: if_splits option.splits json.splits sum.splits)

lemma process_metadata_no_api_id:
  "\<not> has_api_id m \<Longrightarrow> m \<noteq> JNull \<Longrightarrow> process_metadata w m = Inr (None, [])"
  unfolding process_metadata_def has_api_id_def property_def
  by (cases m) simp_all

lemma process_metadata_push:
  assumes "process_metadata w m = Inr (Some lib, ps)"
  shows "\<exists>props name. m = JObj props \<and> truthy (map_of props ''api_id'')
           \<and> map_of props ''name_pretty'' = Some (JStr name)
           \<and> ((\<not> truthy (map_of props ''product_documentation'') \<and> ps = []
                \<and> lib = JObj (AList.update ''name_pretty'' (JStr (normalize_name name)) props))
              \<or> (\<exists>pd u res. map_of props ''product_documentation'' = Some (JStr pd) \<and> pd \<noteq> []
                   \<and> u = (if is_stackdriver (normalize_name name) then stackdriver_support
                           else derive_supportDocsUrl pd)
                   \<and> head_request w u = Inr res \<and> ps = [u]
                   \<and> lib = JObj (AList.update ''support_documentation''
                              (JStr (if status res = 404 then pd else u))
                              (AList.update ''name_pretty'' (JStr (normalize_name name)) props))))"
proof (cases m)
  case (JObj props)
  show ?thesis
  proof (cases "truthy (map_of props ''api_id'')")
    case False
    with assms JObj show ?thesis by (simp add: process_metadata_def)
  next
    case api: True
    show ?thesis
    proof (cases "map_of props ''name_pretty''")
      case None
      with assms JObj api show ?thesis by (simp add: process_metadata_def)
    next
      case (Some v)
      show ?thesis
      proof (cases v)
        case (JStr name)
        note name = Some [unfolded JStr]
        let ?props1 = "AList.update ''name_pretty'' (JStr (normalize_name name)) props"
        have pd1: "map_of ?props1 ''product_documentation'' = map_of props ''product_documentation''"
          by (simp add: update_conv')
        show ?thesis
        proof (cases "truthy (map_of props ''product_documentation'')")
          case False
          with assms JObj api name pd1 have "ps = [] \<and> lib = JObj ?props1"
            by (auto simp: process_metadata_def Let_def split: option.splits json.splits)
          with JObj api name False show ?thesis by simp
        next
          case True
          then obtain pd where pd: "map_of props ''product_documentation'' = Some (JStr pd)" "pd \<noteq> []"
            using assms JObj api name pd1
            by (auto simp: process_metadata_def Let_def split: option.splits json.splits if_splits)
          let ?u = "if is_stackdriver (normalize_name name) then stackdriver_support
                           else derive_supportDocsUrl pd"
          from assms JObj api name pd1 pd obtain res where
            "head_request w ?u = Inr res" "ps = [?u]"
            "lib = JObj (AList.update ''support_documentation''
                              (JStr (if status res = 404 then pd else ?u)) ?props1)"
            by (auto simp: process_metadata_def Let_def split: sum.splits if_splits)
          with JObj api name pd show ?thesis by auto
        qed
      qed (use assms JObj api Some in \<open>simp_all add: process_metadata_def\<close>)
    qed
  qed
qed (use assms in \<open>simp_all add: process_metadata_def\<close>)

lemma process_all_Inr:
  "process_all w md libs probes = Inr (libs', probes') \<Longrightarrow>
   libs' = libs @ concat (map (pushed w \<circ> snd) md)
   \<and> probes' = probes @ concat (map (probed w \<circ> snd) md)
   \<and> (\<forall>m \<in> snd ` set md. \<exists>r. process_metadata w m = Inr r)"
proof (induction md arbitrary: libs probes)
  case Nil
  then show ?case by simp
next
  case (Cons p md)
  obtain key m where p: "p = (key, m)" by (cases p)
  show ?case
  proof (cases "process_metadata w m")
    case (Inl e)
    with Cons.prems p show ?thesis by simp
  next
    case (Inr r)
    obtain lib_opt ps where r: "r = (lib_opt, ps)" by (cases r)
    show ?thesis
    proof (cases lib_opt)
      case None
      with Cons.prems p Inr r
      have "process_all w md libs (probes @ ps) = Inr (libs', probes')" by simp
      from Cons.IH [OF this] Inr r None show ?thesis
        by (simp add: p pushed_def probed_def)
    next
      case (Some lib)
      with Cons.prems p Inr r
      have "process_all w md (libs @ [lib]) (probes @ ps) = Inr (libs', probes')" by simp
      from Cons.IH [OF this] Inr r Some show ?thesis
        by (simp add: p pushed_def probed_def)
    qed
  qed
qed

lemma set_insert_by: "set (insert_by cmp x ys) = insert x (set ys)"
  by (induction ys) auto

lemma length_insert_by: "length (insert_by cmp x ys) = Suc (length ys)"
  by (induction ys) auto

lemma set_array_sort: "set (array_sort cmp xs) = set xs"
  by (induction xs) (simp_all add: array_sort_def set_insert_by)

lemma length_array_sort: "length (array_sort cmp xs) = length xs"
  by (induction xs) (simp_all add: array_sort_def length_insert_by)



lemma render_rows_Inr:
  "render_rows w libs partial = Inr result \<Longrightarrow>
   \<exists>rows. list_all2 (\<lambda>lib row. render_row w lib = Inr row) libs rows
      \<and> result = partial @ concat rows"
proof (induction libs arbitrary: partial)
  case Nil
  then show ?case by simp
next
  case (Cons lib libs)
  show ?case
  proof (cases "render_row w lib")
    case (Inl e)
    with Cons.prems show ?thesis by simp
  next
    case (Inr row)
    with Cons.prems have "render_rows w libs (partial @ row) = Inr result" by simp
    from Cons.IH [OF this] obtain rows where
      "list_all2 (\<lambda>lib row. render_row w lib = Inr row) libs rows"
      and "result = (partial @ row) @ concat rows"
      by (elim exE conjE)
    with Inr have "list_all2 (\<lambda>lib row. render_row w lib = Inr row) (lib # libs) (row # rows)
      \<and> result = partial @ concat (row # rows)"
      by simp
    then show ?thesis by (intro exI)
  qed
qed

lemma generateReadme_Inr:
  assumes "generateReadme w fs md = (fs', Inr probes)"
  shows "\<exists>tpl libs0 rows. template w = Some tpl
     \<and> process_all w md [] [] = Inr (libs0, probes)
     \<and> list_all2 (\<lambda>lib row. render_row w lib = Inr row)
           (array_sort (compare_libs w) libs0) rows
     \<and> fs' = fs\<lparr>libraries_json := Some (array_sort (compare_libs w) libs0),
                README_md := Some (string_replace tpl ''{{libraries}}'' (concat rows))\<rparr>"
proof (cases "template w")
  case None
  with assms show ?thesis by (simp add: generateReadme_def)
next
  case (Some tpl)
  show ?thesis
  proof (cases "process_all w md [] []")
    case (Inl e)
    with assms Some show ?thesis by (simp add: generateReadme_def)
  next
    case (Inr r)
    obtain libs0 ps where r: "r = (libs0, ps)" by (cases r)
    show ?thesis
    proof (cases "render_rows w (array_sort (compare_libs w) libs0) []")
      case (Inl e)
      with assms Some Inr r show ?thesis by (simp add: generateReadme_def Let_def)
    next
      case partial: (Inr partial)
      from render_rows_Inr [OF partial] obtain rows where
        rows: "list_all2 (\<lambda>lib row. render_row w lib = Inr row)
                 (array_sort (compare_libs w) libs0) rows"
        and p: "partial = concat rows"
        by auto
      from assms Some Inr r partial p
      have "ps = probes"
        and "fs' = fs\<lparr>libraries_json := Some (array_sort (compare_libs w) libs0),
                README_md := Some (string_replace tpl ''{{libraries}}'' (concat rows))\<rparr>"
        by (simp_all add: generateReadme_def Let_def)
      with Some Inr r rows
      have "template w = Some tpl
         \<and> process_all w md [] [] = Inr (libs0, probes)
         \<and> list_all2 (\<lambda>lib row. render_row w lib = Inr row)
               (array_sort (compare_libs w) libs0) rows
         \<and> fs' = fs\<lparr>libraries_json := Some (array_sort (compare_libs w) libs0),
                README_md := Some (string_replace tpl ''{{libraries}}'' (concat rows))\<rparr>"
        by simp
      then show ?thesis by (intro exI)
    qed
  qed
qed

lemma pushed_Some:
  assumes "lib \<in> set (pushed w m)"
  shows "process_metadata w m = Inr (Some lib, probed w m)"
proof (cases "process_metadata w m")
  case (Inl e)
  with assms show ?thesis by (simp add: pushed_def)
next
  case (Inr r)
  obtain lib_opt ps where r: "r = (lib_opt, ps)" by (cases r)
  show ?thesis
  proof (cases lib_opt)
    case None
    with assms Inr r show ?thesis by (simp add: pushed_def)
  next
    case (Some lib')
    with assms Inr r show ?thesis by (simp add: pushed_def probed_def)
  qed
qed

lemma pushed_has_api_id:
  assumes "lib \<in> set (pushed w m)"
  shows "has_api_id lib \<and> has_api_id m"
  using process_metadata_push [OF pushed_Some [OF assms]]
  by (auto simp: has_api_id_def property_def update_conv')

lemma pushed_length:
  assumes "process_metadata w m = Inr r"
  shows "length (pushed w m) = (if has_api_id m then 1 else 0)"
proof (cases r)
  case (Pair lib_opt ps)
  show ?thesis
  proof (cases lib_opt)
    case None
    with assms Pair process_metadata_skip [of w m ps] show ?thesis
      by (simp add: pushed_def)
  next
    case (Some lib)
    with assms Pair have "lib \<in> set (pushed w m)" by (simp add: pushed_def)
    from pushed_has_api_id [OF this] assms Pair Some show ?thesis
      by (simp add: pushed_def)
  qed
qed

lemma length_concat_pushed:
  "\<forall>m \<in> set ms. \<exists>r. process_metadata w m = Inr r \<Longrightarrow>
   length (concat (map (pushed w) ms)) = length (filter has_api_id ms)"
proof (induction ms)
  case Nil
  show ?case by simp
next
  case (Cons m ms)
  then obtain r where "process_metadata w m = Inr r" by auto
  from pushed_length [OF this] Cons show ?case by simp
qed

lemma generateReadme_libraries:
  assumes "generateReadme w fs repoMetadata = (fs', Inr probes)"
  shows "\<exists>tpl rows. template w = Some tpl
     \<and> libraries_json fs' = Some (array_sort (compare_libs w) (concat (map (pushed w \<circ> snd) repoMetadata)))
     \<and> list_all2 (\<lambda>lib row. render_row w lib = Inr row)
           (array_sort (compare_libs w) (concat (map (pushed w \<circ> snd) repoMetadata))) rows
     \<and> README_md fs' = Some (string_replace tpl ''{{libraries}}'' (concat rows))
     \<and> probes = concat (map (probed w \<circ> snd) repoMetadata)
     \<and> (\<forall>m \<in> snd ` set repoMetadata. \<exists>r. process_metadata w m = Inr r)"
proof -
  from generateReadme_Inr [OF assms] obtain tpl libs0 rows where
    t: "template w = Some tpl" and p: "process_all w repoMetadata [] [] = Inr (libs0, probes)"
    and rows: "list_all2 (\<lambda>lib row. render_row w lib = Inr row)
                 (array_sort (compare_libs w) libs0) rows"
    and f: "fs' = fs\<lparr>libraries_json := Some (array_sort (compare_libs w) libs0),
                README_md := Some (string_replace tpl ''{{libraries}}'' (concat rows))\<rparr>"
    by (elim exE conjE)
  from process_all_Inr [OF p] have libs0: "libs0 = concat (map (pushed w \<circ> snd) repoMetadata)"
    and "probes = concat (map (probed w \<circ> snd) repoMetadata)"
    and "\<forall>m \<in> snd ` set repoMetadata. \<exists>r. process_metadata w m = Inr r"
    by simp_all
  with t f rows
  have "template w = Some tpl
     \<and> libraries_json fs' = Some (array_sort (compare_libs w) (concat (map (pushed w \<circ> snd) repoMetadata)))
     \<and> list_all2 (\<lambda>lib row. render_row w lib = Inr row)
           (array_sort (compare_libs w) (concat (map (pushed w \<circ> snd) repoMetadata))) rows
     \<and> README_md fs' = Some (string_replace tpl ''{{libraries}}'' (concat rows))
     \<and> probes = concat (map (probed w \<circ> snd) repoMetadata)
     \<and> (\<forall>m \<in> snd ` set repoMetadata. \<exists>r. process_metadata w m = Inr r)"
    by simp
  then show ?thesis by (intro exI)
qed

lemma example_run:
  "generateReadme (head_always 200) no_files example_metadata =
     (example_files, Inr [''https://cloud.google.com/vision/docs/getting-support''])"
  by code_simp

lemma example_rows:
  "list_all2 (\<lambda>lib row. render_row (head_always 200) lib = Inr row)
     [asset_entry, vision_entry] rows \<longleftrightarrow> rows = [asset_row, vision_row]"
proof -
  have a: "render_row (head_always 200) asset_entry = Inr asset_row" by code_simp
  have v: "render_row (head_always 200) vision_entry = Inr vision_row" by code_simp
  show ?thesis
    by (auto simp: list_all2_Cons1 a v)
qed

subsection \<open>Records without a product identifier\<close>

text \<open>
  C7. When \<open>generateReadme\<close> completes, the array written to \<open>libraries.json\<close> and the
  rows substituted into the template are those of the same list of entries, one row per
  entry; every entry has a product identifier, and there are as many entries as records
  with one. A record without a product identifier is skipped by its iteration and is not
  among the entries.
\<close>

theorem records_without_api_id_excluded:
  assumes "generateReadme w fs repoMetadata = (fs', Inr probes)"
  shows "\<exists>libs rows tpl. libraries_json fs' = Some libs \<and> template w = Some tpl
      \<and> list_all2 (\<lambda>lib row. render_row w lib = Inr row) libs rows
      \<and> README_md fs' = Some (string_replace tpl ''{{libraries}}'' (concat rows))
      \<and> (\<forall>lib \<in> set libs. has_api_id lib)
      \<and> length libs = length (filter has_api_id (map snd repoMetadata))
      \<and> (\<forall>m \<in> snd ` set repoMetadata.
            \<not> has_api_id m \<longrightarrow> process_metadata w m = Inr (None, []) \<and> m \<notin> set libs)"
proof -
  let ?libs = "array_sort (compare_libs w) (concat (map (pushed w \<circ> snd) repoMetadata))"
  from generateReadme_libraries [OF assms] obtain tpl rows where
    t: "template w = Some tpl" and l: "libraries_json fs' = Some ?libs"
    and rows: "list_all2 (\<lambda>lib row. render_row w lib = Inr row) ?libs rows"
    and r: "README_md fs' = Some (string_replace tpl ''{{libraries}}'' (concat rows))"
    and ok: "\<forall>m \<in> snd ` set repoMetadata. \<exists>r. process_metadata w m = Inr r"
    by (elim exE conjE)
  have all: "\<forall>lib \<in> set ?libs. has_api_id lib"
    by (auto simp: set_array_sort dest: pushed_has_api_id)
  have "length ?libs = length (concat (map (pushed w) (map snd repoMetadata)))"
    by (simp add: length_array_sort)
  also have "\<dots> = length (filter has_api_id (map snd repoMetadata))"
    using ok by (intro length_concat_pushed) simp
  finally have len: "length ?libs = length (filter has_api_id (map snd repoMetadata))" .
  have skip: "\<forall>m \<in> snd ` set repoMetadata.
            \<not> has_api_id m \<longrightarrow> process_metadata w m = Inr (None, []) \<and> m \<notin> set ?libs"
  proof (intro ballI impI)
    fix m
    assume m: "m \<in> snd ` set repoMetadata" and n: "\<not> has_api_id m"
    from ok m obtain r where "process_metadata w m = Inr r" by blast
    then have "m \<noteq> JNull" by (auto simp: process_metadata_def)
    from process_metadata_no_api_id [OF n this] all n
    show "process_metadata w m = Inr (None, []) \<and> m \<notin> set ?libs" by blast
  qed
  from l t rows r all len skip
  have "libraries_json fs' = Some ?libs \<and> template w = Some tpl
      \<and> list_all2 (\<lambda>lib row. render_row w lib = Inr row) ?libs rows
      \<and> README_md fs' = Some (string_replace tpl ''{{libraries}}'' (concat rows))
      \<and> (\<forall>lib \<in> set ?libs. has_api_id lib)
      \<and> length ?libs = length (filter has_api_id (map snd repoMetadata))
      \<and> (\<forall>m \<in> snd ` set repoMetadata.
            \<not> has_api_id m \<longrightarrow> process_metadata w m = Inr (None, []) \<and> m \<notin> set ?libs)"
    by (intro conjI)
  then show ?thesis by (intro exI)
qed

theorem records_without_api_id_excluded_witness:
  "generateReadme (head_always 200) no_files example_metadata =
     (example_files, Inr [''https://cloud.google.com/vision/docs/getting-support''])
   \<and> libraries_json example_files = Some [asset_entry, vision_entry]
   \<and> README_md example_files =
        Some (string_replace ''# Libraries {{libraries}}'' ''{{libraries}}''
               (concat [asset_row, vision_row]))
   \<and> has_api_id asset_entry \<and> has_api_id vision_entry
   \<and> \<not> has_api_id (JObj common_props)
   \<and> process_metadata (head_always 200) (JObj common_props) = Inr (None, [])
   \<and> JObj common_props \<notin> set [asset_entry, vision_entry]"
proof -
  from records_without_api_id_excluded [OF example_run]
  obtain libs rows tpl where l: "libraries_json example_files = Some libs"
    and t: "template (head_always 200) = Some tpl"
    and rows: "list_all2 (\<lambda>lib row. render_row (head_always 200) lib = Inr row) libs rows"
    and r: "README_md example_files = Some (string_replace tpl ''{{libraries}}'' (concat rows))"
    and a: "\<forall>lib \<in> set libs. has_api_id lib"
    and s: "\<forall>m \<in> snd ` set example_metadata.
              \<not> has_api_id m \<longrightarrow>
              process_metadata (head_always 200) m = Inr (None, []) \<and> m \<notin> set libs"
    by (elim exE conjE)
  have libs: "libs = [asset_entry, vision_entry]"
    using l by (simp add: example_files_def)
  have tpl: "tpl = ''# Libraries {{libraries}}''"
    using t by (simp add: head_always_def example_world_def)
  from rows have rows': "rows = [asset_row, vision_row]"
    unfolding libs by (simp only: example_rows)
  have c: "JObj common_props \<in> snd ` set example_metadata"
    by (simp add: example_metadata_def)
  have n: "\<not> has_api_id (JObj common_props)"
    by code_simp
  from s c n have "process_metadata (head_always 200) (JObj common_props) = Inr (None, [])
      \<and> JObj common_props \<notin> set libs"
    by blast
  with example_run l r a n show ?thesis
    unfolding libs tpl rows' by simp
qed

subsection \<open>The order of the entries\<close>





lemma code_unit_inj: "code_unit x = code_unit y \<longleftrightarrow> x = y"
  by (simp add: code_unit_def)

lemma compare_code_units_Cons_le:
  "compare_code_units (x # xs) (y # ys) \<le> 0 \<longleftrightarrow>
     code_unit x < code_unit y \<or> (x = y \<and> compare_code_units xs ys \<le> 0)"
  using code_unit_inj [of x y] by auto

lemma compare_code_units_total:
  "compare_code_units a b \<le> 0 \<or> compare_code_units b a \<le> 0"
proof (induction a b rule: compare_code_units.induct)
  case (4 x xs y ys)
  then show ?case
    unfolding compare_code_units_Cons_le using code_unit_inj [of x y] by (cases "x = y") auto
qed simp_all

lemma compare_code_units_trans:
  "compare_code_units a b \<le> 0 \<Longrightarrow> compare_code_units b c \<le> 0 \<Longrightarrow>
   compare_code_units a c \<le> 0"
proof (induction a b arbitrary: c rule: compare_code_units.induct)
  case 1
  then show ?case by simp
next
  case (2 y ys)
  then show ?case by (cases c) simp_all
next
  case (3 x xs)
  then show ?case by simp
next
  case (4 x xs y ys)
  show ?case
  proof (cases c)
    case Nil
    with "4.prems" show ?thesis by simp
  next
    case (Cons z zs)
    from "4.prems"(1) have xy: "code_unit x < code_unit y
      \<or> (x = y \<and> compare_code_units xs ys \<le> 0)"
      by (simp only: compare_code_units_Cons_le)
    from "4.prems"(2) Cons have yz: "code_unit y < code_unit z
      \<or> (y = z \<and> compare_code_units ys zs \<le> 0)"
      by (simp only: compare_code_units_Cons_le)
    have "code_unit x < code_unit z \<or> (x = z \<and> compare_code_units xs zs \<le> 0)"
      using xy yz "4.IH" [of zs] by force
    then show ?thesis unfolding Cons by (simp only: compare_code_units_Cons_le)
  qed
qed







subsection \<open>What \<open>generateReadme\<close> changes in a record\<close>

lemma filter_update_other:
  "filter (\<lambda>p. fst p \<noteq> k \<and> Q p) (AList.update k v al) = filter (\<lambda>p. fst p \<noteq> k \<and> Q p) al"
  by (induction al) auto

lemma filter_two_updates:
  "filter (\<lambda>p. fst p \<noteq> a \<and> fst p \<noteq> b) (AList.update b v (AList.update a u al))
     = filter (\<lambda>p. fst p \<noteq> a \<and> fst p \<noteq> b) al"
proof -
  have "filter (\<lambda>p. fst p \<noteq> b \<and> fst p \<noteq> a) (AList.update b v (AList.update a u al))
        = filter (\<lambda>p. fst p \<noteq> b \<and> fst p \<noteq> a) (AList.update a u al)"
    by (rule filter_update_other)
  also have "\<dots> = filter (\<lambda>p. fst p \<noteq> a \<and> fst p \<noteq> b) (AList.update a u al)"
    by (rule filter_cong) auto
  also have "\<dots> = filter (\<lambda>p. fst p \<noteq> a \<and> fst p \<noteq> b) al"
    by (rule filter_update_other)
  finally show ?thesis by (simp add: conj_commute)
qed

lemma process_metadata_frame:
  assumes "process_metadata w m = Inr (Some lib, ps)"
  shows "\<exists>props name lprops. m = JObj props \<and> lib = JObj lprops
     \<and> map_of props ''name_pretty'' = Some (JStr name)
     \<and> map_of lprops ''name_pretty'' = Some (JStr (normalize_name name))
     \<and> (\<forall>k. k \<noteq> ''name_pretty'' \<and> k \<noteq> ''support_documentation'' \<longrightarrow> map_of lprops k = map_of props k)
     \<and> filter untouched lprops = filter untouched props
     \<and> (\<not> truthy (map_of props ''product_documentation'') \<longrightarrow>
          lprops = AList.update ''name_pretty'' (JStr (normalize_name name)) props)
     \<and> (truthy (map_of props ''product_documentation'') \<longrightarrow>
          (\<exists>u. lprops = AList.update ''support_documentation'' (JStr u)
                  (AList.update ''name_pretty'' (JStr (normalize_name name)) props)))"
proof -
  from process_metadata_push [OF assms] obtain props name where
    m: "m = JObj props" and n: "map_of props ''name_pretty'' = Some (JStr name)"
    and c: "(\<not> truthy (map_of props ''product_documentation'') \<and> ps = []
                \<and> lib = JObj (AList.update ''name_pretty'' (JStr (normalize_name name)) props))
              \<or> (\<exists>pd u res. map_of props ''product_documentation'' = Some (JStr pd) \<and> pd \<noteq> []
                   \<and> u = (if is_stackdriver (normalize_name name) then stackdriver_support
                           else derive_supportDocsUrl pd)
                   \<and> head_request w u = Inr res \<and> ps = [u]
                   \<and> lib = JObj (AList.update ''support_documentation''
                              (JStr (if status res = 404 then pd else u))
                              (AList.update ''name_pretty'' (JStr (normalize_name name)) props)))"
    by (elim exE conjE)
  let ?p1 = "AList.update ''name_pretty'' (JStr (normalize_name name)) props"
  from c show ?thesis
  proof
    assume a: "\<not> truthy (map_of props ''product_documentation'') \<and> ps = [] \<and> lib = JObj ?p1"
    have "filter untouched ?p1 = filter untouched props"
      unfolding untouched_def by (rule filter_update_other)
    with a m n show ?thesis
      by (intro exI [of _ props] exI [of _ name] exI [of _ ?p1]) (simp add: update_conv')
  next
    assume "\<exists>pd u res. map_of props ''product_documentation'' = Some (JStr pd) \<and> pd \<noteq> []
                   \<and> u = (if is_stackdriver (normalize_name name) then stackdriver_support
                           else derive_supportDocsUrl pd)
                   \<and> head_request w u = Inr res \<and> ps = [u]
                   \<and> lib = JObj (AList.update ''support_documentation''
                              (JStr (if status res = 404 then pd else u)) ?p1)"
    then obtain pd v where pd: "map_of props ''product_documentation'' = Some (JStr pd)" "pd \<noteq> []"
      and l: "lib = JObj (AList.update ''support_documentation'' (JStr v) ?p1)"
      by blast
    have "filter untouched (AList.update ''support_documentation'' (JStr v) ?p1)
            = filter untouched props"
      unfolding untouched_def by (rule filter_two_updates)
    with pd l m n show ?thesis
      by (intro exI [of _ props] exI [of _ name]
            exI [of _ "AList.update ''support_documentation'' (JStr v) ?p1"])
         (auto simp: update_conv')
  qed
qed

text \<open>
  C9. When \<open>generateReadme\<close> completes, every entry written to \<open>libraries.json\<close> is the
  object of one of the records, with \<open>name_pretty\<close> replaced by its normalisation and, when
  the record has a product-documentation URL, \<open>support_documentation\<close> assigned. Every
  other property reads as in the parsed record, and the other properties are the same
  ones in the same order. Without a product-documentation URL, \<open>name_pretty\<close> is the only
  assignment.
\<close>

theorem generateReadme_frame:
  assumes "generateReadme w fs repoMetadata = (fs', Inr probes)"
  shows "\<exists>libs. libraries_json fs' = Some libs
      \<and> (\<forall>lib \<in> set libs. \<exists>key props name lprops.
            (key, JObj props) \<in> set repoMetadata \<and> lib = JObj lprops
            \<and> map_of props ''name_pretty'' = Some (JStr name)
            \<and> map_of lprops ''name_pretty'' = Some (JStr (normalize_name name))
            \<and> (\<forall>k. k \<noteq> ''name_pretty'' \<and> k \<noteq> ''support_documentation''
                  \<longrightarrow> map_of lprops k = map_of props k)
            \<and> filter untouched lprops = filter untouched props
            \<and> (\<not> truthy (map_of props ''product_documentation'') \<longrightarrow>
                 lprops = AList.update ''name_pretty'' (JStr (normalize_name name)) props)
            \<and> (truthy (map_of props ''product_documentation'') \<longrightarrow>
                 (\<exists>u. lprops = AList.update ''support_documentation'' (JStr u)
                         (AList.update ''name_pretty'' (JStr (normalize_name name)) props))))"
proof -
  let ?libs = "array_sort (compare_libs w) (concat (map (pushed w \<circ> snd) repoMetadata))"
  let ?R = "\<lambda>lib props name lprops. lib = JObj lprops
            \<and> map_of props ''name_pretty'' = Some (JStr name)
            \<and> map_of lprops ''name_pretty'' = Some (JStr (normalize_name name))
            \<and> (\<forall>k. k \<noteq> ''name_pretty'' \<and> k \<noteq> ''support_documentation''
                  \<longrightarrow> map_of lprops k = map_of props k)
            \<and> filter untouched lprops = filter untouched props
            \<and> (\<not> truthy (map_of props ''product_documentation'') \<longrightarrow>
                 lprops = AList.update ''name_pretty'' (JStr (normalize_name name)) props)
            \<and> (truthy (map_of props ''product_documentation'') \<longrightarrow>
                 (\<exists>u. lprops = AList.update ''support_documentation'' (JStr u)
                         (AList.update ''name_pretty'' (JStr (normalize_name name)) props)))"
  from generateReadme_libraries [OF assms]
  have l: "libraries_json fs' = Some ?libs" by (elim exE conjE)
  have "libraries_json fs' = Some ?libs
    \<and> (\<forall>lib \<in> set ?libs. \<exists>key props name lprops.
          (key, JObj props) \<in> set repoMetadata \<and> ?R lib props name lprops)"
  proof (intro conjI ballI)
    show "libraries_json fs' = Some ?libs" by (rule l)
  next
    fix lib
    assume "lib \<in> set ?libs"
    then obtain key m where km: "(key, m) \<in> set repoMetadata" and p: "lib \<in> set (pushed w m)"
      by (auto simp: set_array_sort)
    from process_metadata_frame [OF pushed_Some [OF p]]
    obtain props where "\<exists>name lprops. m = JObj props \<and> ?R lib props name lprops" ..
    then obtain name where "\<exists>lprops. m = JObj props \<and> ?R lib props name lprops" ..
    then obtain lprops where f: "m = JObj props \<and> ?R lib props name lprops" ..
    from f have m: "m = JObj props" by (rule conjunct1)
    from f have r: "?R lib props name lprops" by (rule conjunct2)
    from km m have "(key, JObj props) \<in> set repoMetadata" by simp
    with r have "(key, JObj props) \<in> set repoMetadata \<and> ?R lib props name lprops"
      by (rule conjI [rotated])
    then show "\<exists>key props name lprops.
          (key, JObj props) \<in> set repoMetadata \<and> ?R lib props name lprops"
      by (intro exI)
  qed
  then show ?thesis by (intro exI)
qed

theorem generateReadme_frame_witness:
  "libraries_json example_files = Some [asset_entry, vision_entry]
   \<and> vision_entry = JObj vision_entry_props
   \<and> map_of vision_props ''name_pretty'' = Some (JStr ''Google Cloud Vision'')
   \<and> map_of vision_entry_props ''name_pretty'' = Some (JStr ''Vision'')
   \<and> map_of vision_entry_props ''requires_billing'' = map_of vision_props ''requires_billing''
   \<and> filter untouched vision_entry_props = filter untouched vision_props"
proof -
  from generateReadme_frame [OF example_run]
  obtain libs where l: "libraries_json example_files = Some libs"
    and f: "\<forall>lib \<in> set libs. \<exists>key props name lprops.
            (key, JObj props) \<in> set example_metadata \<and> lib = JObj lprops
            \<and> map_of props ''name_pretty'' = Some (JStr name)
            \<and> map_of lprops ''name_pretty'' = Some (JStr (normalize_name name))
            \<and> (\<forall>k. k \<noteq> ''name_pretty'' \<and> k \<noteq> ''support_documentation''
                  \<longrightarrow> map_of lprops k = map_of props k)
            \<and> filter untouched lprops = filter untouched props
            \<and> (\<not> truthy (map_of props ''product_documentation'') \<longrightarrow>
                 lprops = AList.update ''name_pretty'' (JStr (normalize_name name)) props)
            \<and> (truthy (map_of props ''product_documentation'') \<longrightarrow>
                 (\<exists>u. lprops = AList.update ''support_documentation'' (JStr u)
                         (AList.update ''name_pretty'' (JStr (normalize_name name)) props)))"
    by (elim exE conjE)
  have libs: "libs = [asset_entry, vision_entry]"
    using l by (simp add: example_files_def)
  then have "vision_entry \<in> set libs" by simp
  from bspec [OF f this] obtain key props name lprops where
    mem: "(key, JObj props) \<in> set example_metadata"
    and e: "vision_entry = JObj lprops"
    and n: "map_of props ''name_pretty'' = Some (JStr name)"
    and n': "map_of lprops ''name_pretty'' = Some (JStr (normalize_name name))"
    and k: "\<forall>k. k \<noteq> ''name_pretty'' \<and> k \<noteq> ''support_documentation''
                  \<longrightarrow> map_of lprops k = map_of props k"
    and u: "filter untouched lprops = filter untouched props"
    by (elim exE conjE)
  from e have lprops: "lprops = vision_entry_props" by (simp add: vision_entry_def)
  from k have "map_of lprops ''api_id'' = map_of props ''api_id''" by simp
  then have api: "map_of props ''api_id'' = Some (JStr ''vision.googleapis.com'')"
    unfolding lprops by (simp add: vision_entry_props_def)
  have "map_of common_props ''api_id'' \<noteq> Some (JStr ''vision.googleapis.com'')"
    and "map_of asset_props ''api_id'' \<noteq> Some (JStr ''vision.googleapis.com'')"
    by (simp_all add: common_props_def asset_props_def)
  with mem api have props: "props = vision_props"
    by (auto simp: example_metadata_def)
  have name: "map_of vision_props ''name_pretty'' = Some (JStr ''Google Cloud Vision'')"
    by (simp add: vision_props_def)
  with n have "name = ''Google Cloud Vision''" unfolding props by simp
  moreover have "normalize_name ''Google Cloud Vision'' = ''Vision''" by code_simp
  ultimately have "map_of vision_entry_props ''name_pretty'' = Some (JStr ''Vision'')"
    using n' unfolding lprops by simp
  moreover from k have "map_of lprops ''requires_billing'' = map_of props ''requires_billing''"
    by simp
  ultimately show ?thesis
    using l u name unfolding libs lprops props by (simp add: vision_entry_def)
qed

subsection \<open>Records without product documentation\<close>

text \<open>
  C10 as stated fails: a record without product documentation whose metadata file has a
  \<open>support_documentation\<close> of its own is written with that property.
\<close>

theorem own_support_documentation_counterexample:
  "truthy (map_of tasks_props ''api_id'')
   \<and> \<not> truthy (map_of tasks_props ''product_documentation'')
   \<and> process_metadata (head_always 200) (JObj tasks_props) = Inr (Some tasks_entry, [])
   \<and> generateReadme (head_always 200) no_files [(''googleapis/nodejs-tasks'', JObj tasks_props)]
       = (\<lparr>libraries_json = Some [tasks_entry],
           README_md = Some (''# Libraries '' @ tasks_row)\<rparr>, Inr [])
   \<and> property tasks_entry ''support_documentation''
       = Some (JStr ''https://cloud.google.com/tasks/docs/support'')"
  by code_simp

text \<open>
  C10, amended. When \<open>generateReadme\<close> completes, a record with a product identifier and no
  product-documentation URL (absent, or a falsy value) has a string as name, its
  iteration probes no URL and pushes the record with only \<open>name_pretty\<close> assigned; that
  entry is in the array written to \<open>libraries.json\<close> and among the entries whose rows are
  substituted into the template; no \<open>support_documentation\<close> is added to it: the entry's
  is the one of the parsed record, so it has none when the record had none.
\<close>

theorem record_without_product_documentation_included:
  assumes run: "generateReadme w fs repoMetadata = (fs', Inr probes)"
    and mem: "(key, JObj props) \<in> set repoMetadata"
    and api: "truthy (map_of props ''api_id'')"
    and nopd: "\<not> truthy (map_of props ''product_documentation'')"
  shows "\<exists>name libs rows tpl. map_of props ''name_pretty'' = Some (JStr name)
     \<and> process_metadata w (JObj props) =
          Inr (Some (JObj (AList.update ''name_pretty'' (JStr (normalize_name name)) props)), [])
     \<and> libraries_json fs' = Some libs
     \<and> JObj (AList.update ''name_pretty'' (JStr (normalize_name name)) props) \<in> set libs
     \<and> template w = Some tpl
     \<and> list_all2 (\<lambda>lib row. render_row w lib = Inr row) libs rows
     \<and> README_md fs' = Some (string_replace tpl ''{{libraries}}'' (concat rows))
     \<and> map_of (AList.update ''name_pretty'' (JStr (normalize_name name)) props)
          ''support_documentation'' = map_of props ''support_documentation''"
proof -
  let ?libs = "array_sort (compare_libs w) (concat (map (pushed w \<circ> snd) repoMetadata))"
  from generateReadme_libraries [OF run] obtain tpl rows where
    t: "template w = Some tpl" and l: "libraries_json fs' = Some ?libs"
    and rows: "list_all2 (\<lambda>lib row. render_row w lib = Inr row) ?libs rows"
    and r: "README_md fs' = Some (string_replace tpl ''{{libraries}}'' (concat rows))"
    and ok: "\<forall>m \<in> snd ` set repoMetadata. \<exists>r. process_metadata w m = Inr r"
    by (elim exE conjE)
  from mem have "JObj props \<in> snd ` set repoMetadata" by force
  with ok obtain lib_opt ps where pm: "process_metadata w (JObj props) = Inr (lib_opt, ps)"
    by fastforce
  have "lib_opt \<noteq> None"
  proof
    assume "lib_opt = None"
    with pm process_metadata_skip [of w "JObj props" ps] api show False
      by (simp add: has_api_id_def property_def)
  qed
  then obtain lib where pm': "process_metadata w (JObj props) = Inr (Some lib, ps)"
    using pm by auto
  from process_metadata_push [OF pm'] nopd obtain name where
    n: "map_of props ''name_pretty'' = Some (JStr name)" and "ps = []"
    and "lib = JObj (AList.update ''name_pretty'' (JStr (normalize_name name)) props)"
    by auto
  with pm' have pm'': "process_metadata w (JObj props) =
          Inr (Some (JObj (AList.update ''name_pretty'' (JStr (normalize_name name)) props)), [])"
    by simp
  then have "JObj (AList.update ''name_pretty'' (JStr (normalize_name name)) props)
               \<in> set (pushed w (JObj props))"
    by (simp add: pushed_def)
  with mem have inl: "JObj (AList.update ''name_pretty'' (JStr (normalize_name name)) props) \<in> set ?libs"
    by (force simp: set_array_sort)
  have sd: "map_of (AList.update ''name_pretty'' (JStr (normalize_name name)) props)
          ''support_documentation'' = map_of props ''support_documentation''"
    by (simp add: update_conv')
  from n pm'' l inl t rows r sd
  have "map_of props ''name_pretty'' = Some (JStr name)
     \<and> process_metadata w (JObj props) =
          Inr (Some (JObj (AList.update ''name_pretty'' (JStr (normalize_name name)) props)), [])
     \<and> libraries_json fs' = Some ?libs
     \<and> JObj (AList.update ''name_pretty'' (JStr (normalize_name name)) props) \<in> set ?libs
     \<and> template w = Some tpl
     \<and> list_all2 (\<lambda>lib row. render_row w lib = Inr row) ?libs rows
     \<and> README_md fs' = Some (string_replace tpl ''{{libraries}}'' (concat rows))
     \<and> map_of (AList.update ''name_pretty'' (JStr (normalize_name name)) props)
          ''support_documentation'' = map_of props ''support_documentation''"
    by (intro conjI)
  then show ?thesis by (intro exI)
qed

theorem record_without_product_documentation_included_witness:
  "process_metadata (head_always 200) (JObj asset_props) = Inr (Some asset_entry, [])
   \<and> libraries_json example_files = Some [asset_entry, vision_entry]
   \<and> render_row (head_always 200) asset_entry = Inr asset_row
   \<and> README_md example_files =
        Some (string_replace ''# Libraries {{libraries}}'' ''{{libraries}}''
               (concat [asset_row, vision_row]))
   \<and> property asset_entry ''support_documentation'' = None"
proof -
  have mem: "(''googleapis/nodejs-asset'', JObj asset_props) \<in> set example_metadata"
    by (simp add: example_metadata_def)
  have api: "truthy (map_of asset_props ''api_id'')" by code_simp
  have nopd: "\<not> truthy (map_of asset_props ''product_documentation'')" by code_simp
  from record_without_product_documentation_included [OF example_run mem api nopd]
  obtain name libs rows tpl where n: "map_of asset_props ''name_pretty'' = Some (JStr name)"
    and pm: "process_metadata (head_always 200) (JObj asset_props) =
          Inr (Some (JObj (AList.update ''name_pretty'' (JStr (normalize_name name)) asset_props)), [])"
    and l: "libraries_json example_files = Some libs"
    and t: "template (head_always 200) = Some tpl"
    and rows: "list_all2 (\<lambda>lib row. render_row (head_always 200) lib = Inr row) libs rows"
    and r: "README_md example_files = Some (string_replace tpl ''{{libraries}}'' (concat rows))"
    and s: "map_of (AList.update ''name_pretty'' (JStr (normalize_name name)) asset_props)
          ''support_documentation'' = map_of asset_props ''support_documentation''"
    by (elim exE conjE)
  have name: "name = ''Cloud Asset Inventory''"
    using n by (simp add: asset_props_def)
  have norm: "normalize_name ''Cloud Asset Inventory'' = ''Asset Inventory''" by code_simp
  have entry: "JObj (AList.update ''name_pretty'' (JStr ''Asset Inventory'') asset_props) = asset_entry"
    by (simp add: asset_props_def asset_entry_def)
  have libs: "libs = [asset_entry, vision_entry]"
    using l by (simp add: example_files_def)
  have tpl: "tpl = ''# Libraries {{libraries}}''"
    using t by (simp add: head_always_def example_world_def)
  from rows have rows': "rows = [asset_row, vision_row]"
    unfolding libs by (simp only: example_rows)
  have row: "render_row (head_always 200) asset_entry = Inr asset_row" by code_simp
  have none: "map_of asset_props ''support_documentation'' = None" by code_simp
  from s have "property asset_entry ''support_documentation'' = None"
    unfolding name norm none by (simp add: property_def entry [symmetric])
  with pm l r row show ?thesis
    unfolding name norm entry libs tpl rows' by simp
qed

subsection \<open>Metadata collection\<close>

lemma fatal_fetch_iff:
  "fatal_fetch w repo \<longleftrightarrow> (\<exists>e. fetch_metadata w repo = Inl e \<and> rethrown e)"
  by (auto simp: fatal_fetch_def fetch_metadata_def github_request_def gaxios_request_def
           default_validateStatus_def split: outcome.splits option.splits if_splits)

lemma fetch_metadata_404:
  "github_get w (contents_url repo) = Responded res \<Longrightarrow> status res = 404 \<Longrightarrow>
   fetch_metadata w repo = Inl (GaxiosError (Some 404))"
  by (simp add: fetch_metadata_def github_request_def gaxios_request_def default_validateStatus_def)

lemma collect_loop_fatal:
  "repo \<in> set repos \<Longrightarrow> fatal_fetch w repo \<Longrightarrow>
   \<exists>con' e. collect_loop w repos repoMetadata con = (con', Inl e) \<and> rethrown e"
proof (induction repos arbitrary: repoMetadata con)
  case Nil
  then show ?case by simp
next
  case (Cons r repos)
  show ?case
  proof (cases "fetch_metadata w r")
    case (Inr v)
    then have "\<not> fatal_fetch w r" by (simp add: fatal_fetch_iff)
    with Cons.prems have "repo \<in> set repos" by auto
    from Cons.IH [OF this Cons.prems(2)] Inr show ?thesis by simp
  next
    case (Inl err)
    show ?thesis
    proof (cases "rethrown err")
      case True
      with Inl show ?thesis by simp
    next
      case False
      with Inl have "\<not> fatal_fetch w r" by (simp add: fatal_fetch_iff)
      with Cons.prems have "repo \<in> set repos" by auto
      from Cons.IH [OF this Cons.prems(2)] Inl False show ?thesis by simp
    qed
  qed
qed

lemma main_aborted:
  assumes "getRepos w = Some (Inr (repos, requested))"
    and "collectRepoMetadata w repos
           [(True, ''Discovered '' @ decimal (length repos) @ '' node.js repos with metadata'')]
         = (con', Inl e)"
  shows "main w fs = Some (fs, con', Inl e)"
  using assms by (simp add: main_def)

text \<open>
  C4. In \<open>collectRepoMetadata\<close> a 404 on the fetch of the metadata file is logged as a
  failed checkpoint and the loop goes on with the next repository, the mapping
  unchanged. When the fetch for any discovered repository fails otherwise (no response,
  another status outside 2xx, content that is missing or does not parse), \<open>main\<close> ends
  with an exception that \<open>collectRepoMetadata\<close> rethrew, and the files are as they were
  before the run: nothing was written.
\<close>

theorem metadata_404_skipped_other_errors_abort:
  "(github_get w (contents_url repo) = Responded res \<and> status res = 404 \<longrightarrow>
      collect_loop w (repo # repos) repoMetadata con
        = collect_loop w repos repoMetadata
            (con @ [(False, repo @ '' had no .repo-metadata.json'')]))
   \<and> (getRepos w = Some (Inr (rs, requested)) \<and> r \<in> set rs \<and> fatal_fetch w r \<longrightarrow>
        (\<exists>con' e. main w fs = Some (fs, con', Inl e) \<and> rethrown e))"
proof (intro conjI impI)
  assume "github_get w (contents_url repo) = Responded res \<and> status res = 404"
  then have "fetch_metadata w repo = Inl (GaxiosError (Some 404))"
    by (simp add: fetch_metadata_404)
  then show "collect_loop w (repo # repos) repoMetadata con
        = collect_loop w repos repoMetadata
            (con @ [(False, repo @ '' had no .repo-metadata.json'')])"
    by simp
next
  assume a: "getRepos w = Some (Inr (rs, requested)) \<and> r \<in> set rs \<and> fatal_fetch w r"
  let ?con = "[(True, ''Discovered '' @ decimal (length rs) @ '' node.js repos with metadata'')]"
  from a have g: "getRepos w = Some (Inr (rs, requested))" and mem: "r \<in> set rs"
    and fatal: "fatal_fetch w r"
    by simp_all
  from collect_loop_fatal [OF mem fatal, of "[]" ?con]
  obtain con' e where c: "collect_loop w rs [] ?con = (con', Inl e)" and r: "rethrown e"
    by (elim exE conjE)
  from c have "collectRepoMetadata w rs ?con = (con', Inl e)"
    by (simp add: collectRepoMetadata_def)
  from main_aborted [OF g this] have "main w fs = Some (fs, con', Inl e)" .
  with r show "\<exists>con' e. main w fs = Some (fs, con', Inl e) \<and> rethrown e"
    by (intro exI conjI)
qed


theorem metadata_404_skipped_other_errors_abort_witness:
  "github_get failing_world (contents_url ''googleapis/nodejs-vision'')
     = Responded (plain_response 404)
   \<and> collect_loop failing_world
        [''googleapis/nodejs-vision'', ''googleapis/nodejs-logging'', ''googleapis/nodejs-storage'']
        [] []
     = collect_loop failing_world
        [''googleapis/nodejs-logging'', ''googleapis/nodejs-storage''] []
        [(False, ''googleapis/nodejs-vision had no .repo-metadata.json'')]
   \<and> getRepos failing_world
     = Some (Inr ([''googleapis/nodejs-vision'', ''googleapis/nodejs-logging'',
                   ''googleapis/nodejs-storage''], [search_url, page2_url]))
   \<and> fatal_fetch failing_world ''googleapis/nodejs-logging''
   \<and> main failing_world no_files
     = Some (no_files,
             [(True, ''Discovered 3 node.js repos with metadata''),
              (False, ''googleapis/nodejs-vision had no .repo-metadata.json'')],
             Inl SyntaxError)"
proof -
  have g: "github_get failing_world (contents_url ''googleapis/nodejs-vision'')
             = Responded (plain_response 404)"
    by code_simp
  have s: "status (plain_response 404) = 404"
    by (simp add: plain_response_def)
  have r: "getRepos failing_world
     = Some (Inr ([''googleapis/nodejs-vision'', ''googleapis/nodejs-logging'',
                   ''googleapis/nodejs-storage''], [search_url, page2_url]))"
    by code_simp
  have f: "fatal_fetch failing_world ''googleapis/nodejs-logging''"
    by code_simp
  have m: "main failing_world no_files
     = Some (no_files,
             [(True, ''Discovered 3 node.js repos with metadata''),
              (False, ''googleapis/nodejs-vision had no .repo-metadata.json'')],
             Inl SyntaxError)"
    by code_simp
  from metadata_404_skipped_other_errors_abort
    [of failing_world "''googleapis/nodejs-vision''" "plain_response 404"
        "[''googleapis/nodejs-logging'', ''googleapis/nodejs-storage'']" "[]" "[]"
        "[''googleapis/nodejs-vision'', ''googleapis/nodejs-logging'',
          ''googleapis/nodejs-storage'']" "[search_url, page2_url]"
        "''googleapis/nodejs-logging''" no_files]
    g s r f m
  show ?thesis by simp
qed

end
